theory Spec2Isabelle
  imports Main "HOL-Library.Word"
begin

unbundle bit_operations_syntax

section \<open>Text and JavaScript values\<close>

text \<open>
  A JavaScript string is modelled as the list of its character codes, so that the
  text produced by the decoder (any Unicode code point) and the literals of the source
  live in one type.  \<open>lit\<close> embeds an ASCII literal of the source.
\<close>

type_synonym jstring = "nat list"

definition lit :: "string \<Rightarrow> jstring" where
  "lit s = map of_char s"

definition newline :: nat where
  "newline = 10"

text \<open>
  The integral numbers of magnitude up to \<open>2 ^ 53\<close>: each of them is a JavaScript
  number (a double holds it exactly), and \<open>String\<close> prints it in decimal notation.
  \<open>0\<close> stands for both zeros, which \<open>String\<close> prints alike.
\<close>

typedef js_integer = "{n :: int. \<bar>n\<bar> \<le> 2 ^ 53}"
  morphisms integer_value js_integer
  by (rule exI [of _ 0]) simp

setup_lifting type_definition_js_integer

instantiation js_integer :: zero
begin

lift_definition zero_js_integer :: js_integer is 0
  by simp

instance ..

end

text \<open>
  The values a parameter mapping can hold (\<open>Record<string, any>\<close>, filled from a JSON
  body).  \<open>JNum\<close> holds a number of the kind above.  \<open>JOther\<close> stands for any other
  value, given by its \<open>String(value)\<close>: a number that is not integral or is larger
  (\<open>1.5\<close>, and \<open>1e21\<close>, which \<open>String\<close> prints as \<open>1e+21\<close>), an array, an object.
  The mapping is modelled by its lookup \<open>params[name]\<close>, which is \<open>undefined\<close> for a
  name the object does not have.
\<close>

datatype jsval =
  JUndefined | JNull | JBool bool | JNum js_integer | JStr jstring | JOther jstring

type_synonym params = "jstring \<Rightarrow> jsval"

text \<open>The decimal notation of an integer, with \<open>-\<close> before a negative one.\<close>

fun digit_text :: "nat \<Rightarrow> jstring" where
  "digit_text n = (if n < 10 then [48 + n] else digit_text (n div 10) @ [48 + n mod 10])"

definition int_text :: "int \<Rightarrow> jstring" where
  "int_text i = (if i < 0 then lit ''-'' @ digit_text (nat (- i)) else digit_text (nat i))"

text \<open>\<open>String(value)\<close>.\<close>

fun js_String :: "jsval \<Rightarrow> jstring" where
  "js_String JUndefined = lit ''undefined''"
| "js_String JNull = lit ''null''"
| "js_String (JBool b) = (if b then lit ''true'' else lit ''false'')"
| "js_String (JNum n) = int_text (integer_value n)"
| "js_String (JStr s) = s"
| "js_String (JOther s) = s"

section \<open>Script descriptors (types.ts)\<close>

datatype param_type = TString | TNumber | TBoolean | TSelect

datatype context_kind = Terminal | Browser

text \<open>
  \<open>ScriptParam\<close> and \<open>ScriptMetadata\<close>.  Both interfaces have a \<open>name\<close> and a
  \<open>description\<close>; the descriptor's \<open>name\<close>, \<open>description\<close> and \<open>context\<close> carry the prefix \<open>script_\<close>.
\<close>

record ScriptParam =
  name :: jstring
  ptype :: param_type
  required :: bool
  description :: "jstring option"
  options :: "jstring list option"
  default_value :: "jsval option"

record ScriptMetadata =
  script_name :: jstring
  script_description :: jstring
  category :: jstring
  script_context :: context_kind
  params :: "ScriptParam list"
  filePath :: jstring
  fileName :: jstring

section \<open>Parameter binding (executeScript, the argument loop)\<close>

datatype error =
    RequiredParameterMissing jstring  \<comment> \<open>\<open>Required parameter '<name>' is missing\<close>\<close>
  | UnsupportedScriptType jstring     \<comment> \<open>\<open>Unsupported script type: <fileName>\<close>\<close>
  | SpawnFailed "jstring list"        \<comment> \<open>whatever \<open>spawn\<close> throws for a command it cannot launch\<close>

text \<open>The test \<open>value === undefined || value === null || value === ''\<close>.\<close>

definition is_blank :: "jsval \<Rightarrow> bool" where
  "is_blank v = (v = JUndefined \<or> v = JNull \<or> v = JStr [])"

text \<open>
  The loop \<open>for (const param of script.params)\<close>: \<open>args\<close> is the array built so far,
  \<open>throw\<close> leaves the loop with the error.
\<close>

fun bind_loop :: "ScriptParam list \<Rightarrow> params \<Rightarrow> jstring list \<Rightarrow> error + jstring list" where
  "bind_loop [] ps args = Inr args"
| "bind_loop (param # rest) ps args =
     (let v = ps (name param) in
      if required param \<and> (v = JUndefined \<or> v = JNull \<or> v = JStr [])
      then Inl (RequiredParameterMissing (name param))
      else if v \<noteq> JUndefined \<and> v \<noteq> JNull \<and> v \<noteq> JStr []
      then bind_loop rest ps (args @ [js_String v])
      else bind_loop rest ps args)"

definition bind_args :: "ScriptMetadata \<Rightarrow> params \<Rightarrow> error + jstring list" where
  "bind_args script ps = bind_loop (params script) ps []"

section \<open>Choosing the command and spawning (executeScript, up to the spawn)\<close>

text \<open>\<open>s.endsWith(suf)\<close>.\<close>

definition endsWith :: "jstring \<Rightarrow> jstring \<Rightarrow> bool" where
  "endsWith s suf = (length suf \<le> length s \<and> drop (length s - length suf) s = suf)"

text \<open>
  The argument of \<open>spawn\<close>: \<open>cmd\<close> is \<open>[command, ...cmdArgs]\<close>; stdout and stderr are
  always \<open>'pipe'\<close> and stdin is always \<open>'ignore'\<close>.
\<close>

record spawn_options =
  cmd :: "jstring list"
  cwd :: jstring

definition select_command :: "ScriptMetadata \<Rightarrow> jstring list \<Rightarrow> error + jstring list" where
  "select_command script args =
     (if endsWith (fileName script) (lit ''.sh'') then Inr (lit ''bash'' # filePath script # args)
      else if endsWith (fileName script) (lit ''.js'')
      then Inr (lit ''bun'' # lit ''run'' # filePath script # args)
      else if endsWith (fileName script) (lit ''.ts'')
      then Inr (lit ''bun'' # lit ''run'' # filePath script # args)
      else Inl (UnsupportedScriptType (fileName script)))"

text \<open>\<open>workingDir || process.cwd()\<close>: an absent and an empty \<open>workingDir\<close> are both falsy.\<close>

definition working_dir :: "jstring option \<Rightarrow> jstring \<Rightarrow> jstring" where
  "working_dir workingDir process_cwd =
     (case workingDir of None \<Rightarrow> process_cwd | Some d \<Rightarrow> if d = [] then process_cwd else d)"

section \<open>The runtime's TextDecoder and TextEncoder (UTF-8)\<close>

text \<open>
  \<open>new TextDecoder()\<close> and \<open>decoder.decode(value, { stream: true })\<close> are the
  runtime's; the source relies on them for every chunk.  They are modelled after the
  UTF-8 decoder of the Encoding Standard, which the runtime implements: the decoder
  keeps the code point under construction, the number of continuation bytes seen and
  needed, and the bounds of the next continuation byte; an ill-formed sequence yields
  U+FFFD (the decoder is not \<open>fatal\<close>), and the byte that broke the sequence is
  processed again as a first byte.
\<close>

type_synonym byte = "8 word"

record utf8_decoder =
  code_point :: nat
  bytes_seen :: nat
  bytes_needed :: nat
  lower_boundary :: nat
  upper_boundary :: nat

definition utf8_fresh :: utf8_decoder where
  "utf8_fresh = \<lparr>code_point = 0, bytes_seen = 0, bytes_needed = 0,
                   lower_boundary = 0x80, upper_boundary = 0xBF\<rparr>"

text \<open>The handler when no continuation byte is needed.\<close>

definition utf8_lead :: "utf8_decoder \<Rightarrow> nat \<Rightarrow> utf8_decoder \<times> nat list" where
  "utf8_lead d b =
     (if b \<le> 0x7F then (d, [b])
      else if 0xC2 \<le> b \<and> b \<le> 0xDF
      then (d\<lparr>bytes_needed := 1, code_point := b AND 0x1F\<rparr>, [])
      else if 0xE0 \<le> b \<and> b \<le> 0xEF
      then (d\<lparr>lower_boundary := (if b = 0xE0 then 0xA0 else lower_boundary d),
              upper_boundary := (if b = 0xED then 0x9F else upper_boundary d),
              bytes_needed := 2, code_point := b AND 0xF\<rparr>, [])
      else if 0xF0 \<le> b \<and> b \<le> 0xF4
      then (d\<lparr>lower_boundary := (if b = 0xF0 then 0x90 else lower_boundary d),
              upper_boundary := (if b = 0xF4 then 0x8F else upper_boundary d),
              bytes_needed := 3, code_point := b AND 0x7\<rparr>, [])
      else (d, [0xFFFD]))"

text \<open>The handler of one byte: the new state and the code points it emits.\<close>

definition utf8_handler :: "utf8_decoder \<Rightarrow> byte \<Rightarrow> utf8_decoder \<times> nat list" where
  "utf8_handler d byte =
     (let b = unat byte in
      if bytes_needed d = 0 then utf8_lead d b
      else if b < lower_boundary d \<or> upper_boundary d < b
      then (let (d', out) = utf8_lead utf8_fresh b in (d', 0xFFFD # out))
      else
        (let d1 = d\<lparr>lower_boundary := 0x80, upper_boundary := 0xBF,
                     code_point := push_bit 6 (code_point d) OR (b AND 0x3F),
                     bytes_seen := bytes_seen d + 1\<rparr>
         in if bytes_seen d1 \<noteq> bytes_needed d1 then (d1, [])
            else (d1\<lparr>code_point := 0, bytes_needed := 0, bytes_seen := 0\<rparr>, [code_point d1])))"

fun utf8_run :: "utf8_decoder \<Rightarrow> byte list \<Rightarrow> utf8_decoder \<times> nat list" where
  "utf8_run d [] = (d, [])"
| "utf8_run d (b # bs) =
     (let (d1, out1) = utf8_handler d b; (d2, out2) = utf8_run d1 bs in (d2, out1 @ out2))"

text \<open>
  A \<open>TextDecoder\<close> object: the decoder and the flag "BOM seen".  With
  \<open>ignoreBOM\<close> false (the default) the first code point decoded is dropped when it
  is U+FEFF.  Every call of the source passes \<open>stream: true\<close>, so the decoder is
  never reset and never flushed.
\<close>

record TextDecoder =
  decoder :: utf8_decoder
  bom_seen :: bool

definition new_TextDecoder :: TextDecoder where
  "new_TextDecoder = \<lparr>decoder = utf8_fresh, bom_seen = False\<rparr>"

definition strip_bom :: "bool \<Rightarrow> nat list \<Rightarrow> bool \<times> nat list" where
  "strip_bom seen out =
     (case out of [] \<Rightarrow> (seen, [])
      | c # cs \<Rightarrow> if \<not> seen \<and> c = 0xFEFF then (True, cs) else (True, c # cs))"

definition decode_stream :: "TextDecoder \<Rightarrow> byte list \<Rightarrow> TextDecoder \<times> jstring" where
  "decode_stream td bytes =
     (let (d, out) = utf8_run (decoder td) bytes;
          (seen, txt) = strip_bom (bom_seen td) out
      in (\<lparr>decoder = d, bom_seen = seen\<rparr>, txt))"

text \<open>
  Re-encoding (\<open>TextEncoder\<close>): the UTF-8 encoder of the same standard.  A code that
  is not a scalar value (a lone surrogate) is encoded as U+FFFD.
\<close>

definition is_scalar :: "nat \<Rightarrow> bool" where
  "is_scalar c = (c < 0xD800 \<or> (0xE000 \<le> c \<and> c < 0x110000))"

definition utf8_encode_scalar :: "nat \<Rightarrow> byte list" where
  "utf8_encode_scalar c =
     (if c < 0x80 then [of_nat c]
      else if c < 0x800
      then [of_nat (drop_bit 6 c + 0xC0), of_nat (0x80 OR (c AND 0x3F))]
      else if c < 0x10000
      then [of_nat (drop_bit 12 c + 0xE0), of_nat (0x80 OR (drop_bit 6 c AND 0x3F)),
            of_nat (0x80 OR (c AND 0x3F))]
      else [of_nat (drop_bit 18 c + 0xF0), of_nat (0x80 OR (drop_bit 12 c AND 0x3F)),
            of_nat (0x80 OR (drop_bit 6 c AND 0x3F)), of_nat (0x80 OR (c AND 0x3F))])"

definition utf8_encode :: "jstring \<Rightarrow> byte list" where
  "utf8_encode s = concat (map (\<lambda>c. utf8_encode_scalar (if is_scalar c then c else 0xFFFD)) s)"

text \<open>Decoding a sequence of reads with one decoder: the text of each read, in order.\<close>

fun decode_reads :: "TextDecoder \<Rightarrow> byte list list \<Rightarrow> jstring list" where
  "decode_reads td [] = []"
| "decode_reads td (bytes # rest) =
     (let (td1, txt) = decode_stream td bytes in txt # decode_reads td1 rest)"

section \<open>The runtime's ReadableStream (default controller)\<close>

text \<open>
  \<open>new ReadableStream<string>({ start, cancel })\<close> is the runtime's too.  It is modelled
  after the Streams Standard: \<open>controller.enqueue\<close> and \<open>controller.close\<close> throw a
  \<open>TypeError\<close> unless the stream is readable and no close was requested; a chunk goes
  to a waiting \<open>read()\<close> of the consumer if there is one and into the queue otherwise;
  \<open>close\<close> closes the stream at once when the queue is empty and otherwise when the
  consumer has read the queue empty; cancelling a readable stream closes it, drops the
  queue and calls the \<open>cancel\<close> of the underlying source, while cancelling a closed
  or an errored stream calls nothing.

  The stream of the source carries plain strings.  Each chunk is kept with the place of
  the source that produced it, and \<open>enqueued\<close> is the history of all the chunks that
  \<open>enqueue\<close> accepted, in order; both only serve to state properties.
\<close>

datatype origin = Stdout | Stderr | Synthetic

type_synonym chunk = "origin \<times> jstring"

datatype stream_state = Readable | Closed | Errored

record ReadableStream =
  state :: stream_state
  closeRequested :: bool
  queue :: "chunk list"
  readRequests :: nat
  enqueued :: "chunk list"

definition new_ReadableStream :: ReadableStream where
  "new_ReadableStream =
     \<lparr>state = Readable, closeRequested = False, queue = [], readRequests = 0, enqueued = []\<rparr>"

definition canCloseOrEnqueue :: "ReadableStream \<Rightarrow> bool" where
  "canCloseOrEnqueue rs = (\<not> closeRequested rs \<and> state rs = Readable)"

text \<open>\<open>controller.enqueue(chunk)\<close>; \<open>None\<close> when it throws.\<close>

definition enqueue :: "chunk \<Rightarrow> ReadableStream \<Rightarrow> ReadableStream option" where
  "enqueue c rs =
     (if \<not> canCloseOrEnqueue rs then None
      else if 0 < readRequests rs
      then Some (rs\<lparr>readRequests := readRequests rs - 1, enqueued := enqueued rs @ [c]\<rparr>)
      else Some (rs\<lparr>queue := queue rs @ [c], enqueued := enqueued rs @ [c]\<rparr>))"

text \<open>\<open>controller.close()\<close>; \<open>None\<close> when it throws.\<close>

definition close :: "ReadableStream \<Rightarrow> ReadableStream option" where
  "close rs =
     (if \<not> canCloseOrEnqueue rs then None
      else if queue rs = []
      then Some (rs\<lparr>closeRequested := True, state := Closed, readRequests := 0\<rparr>)
      else Some (rs\<lparr>closeRequested := True\<rparr>))"

text \<open>The rejection of the promise of \<open>start\<close> errors a stream that is still readable.\<close>

definition error_stream :: "ReadableStream \<Rightarrow> ReadableStream" where
  "error_stream rs =
     (if state rs = Readable then rs\<lparr>state := Errored, queue := [], readRequests := 0\<rparr> else rs)"

text \<open>A \<open>read()\<close> of the consumer.\<close>

definition consumer_read :: "ReadableStream \<Rightarrow> ReadableStream" where
  "consumer_read rs =
     (if state rs \<noteq> Readable then rs
      else case queue rs of
          [] \<Rightarrow> rs\<lparr>readRequests := readRequests rs + 1\<rparr>
        | c # cs \<Rightarrow>
            if closeRequested rs \<and> cs = [] then rs\<lparr>queue := [], state := Closed\<rparr>
            else rs\<lparr>queue := cs\<rparr>)"

text \<open>
  A \<open>cancel()\<close> of the consumer, up to the call of the underlying \<open>cancel\<close>: the new
  stream, and whether the underlying \<open>cancel\<close> is called.
\<close>

definition consumer_cancel :: "ReadableStream \<Rightarrow> ReadableStream \<times> bool" where
  "consumer_cancel rs =
     (if state rs \<noteq> Readable then (rs, False)
      else (rs\<lparr>state := Closed, queue := [], readRequests := 0\<rparr>, True))"

section \<open>The execution of a script (executeScript)\<close>

text \<open>A call \<open>logExecution(scriptName, params, output, exitCode)\<close>; \<open>output\<close> is the
  content of \<open>outputLines\<close> at the call, \<open>exitCode\<close> is \<open>None\<close> when it is not passed.\<close>

record log_call =
  lc_scriptName :: jstring
  lc_params :: params
  lc_output :: "jstring list"
  lc_exitCode :: "int option"

text \<open>
  The signals \<open>proc.kill\<close> can send that matter here.  Called without argument, as
  the source calls it, \<open>proc.kill()\<close> sends \<open>SIGTERM\<close>.
\<close>

datatype signal = SIGTERM | SIGKILL

text \<open>
  The state of one execution after \<open>executeScript\<close> has returned: the child and the
  signals sent to it so far, the variables the closures of the stream share, the two
  reader loops (each with its decoder, \<open>reading\<close> until the loop is left), \<open>start\<close>
  suspended at \<open>await proc.exited\<close>, the stream, and the calls of \<open>logExecution\<close>
  made so far.
  The constructor of the stream runs \<open>start\<close> at once, up to that \<open>await\<close>; both
  pipes exist, since \<open>spawn\<close> is called with \<open>'pipe'\<close> for each.
\<close>

record execution =
  script :: ScriptMetadata
  raw_params :: params
  proc :: spawn_options
  signals :: "signal list"
  outputLines :: "jstring list"
  stdout_decoder :: TextDecoder
  stdout_reading :: bool
  stderr_decoder :: TextDecoder
  stderr_reading :: bool
  awaiting_exit :: bool
  stream :: ReadableStream
  log_calls :: "log_call list"

text \<open>
  The world \<open>executeScript\<close> acts on: the children spawned so far, the commands the
  runtime can launch (\<open>spawn\<close> throws for the others), and the content of the log
  file (\<open>None\<close>: there is no file).
\<close>

record world =
  children :: "spawn_options list"
  launchable :: "jstring list \<Rightarrow> bool"
  log_file :: "jstring option"

definition start_execution :: "ScriptMetadata \<Rightarrow> params \<Rightarrow> spawn_options \<Rightarrow> execution" where
  "start_execution scr ps opts =
     \<lparr>script = scr, raw_params = ps, proc = opts, signals = [], outputLines = [],
      stdout_decoder = new_TextDecoder, stdout_reading = True,
      stderr_decoder = new_TextDecoder, stderr_reading = True,
      awaiting_exit = True, stream = new_ReadableStream, log_calls = []\<rparr>"

definition executeScript ::
  "ScriptMetadata \<Rightarrow> params \<Rightarrow> jstring option \<Rightarrow> jstring \<Rightarrow> world \<Rightarrow> (error + execution) \<times> world"
where
  "executeScript scr ps workingDir process_cwd w =
     (case bind_args scr ps of
        Inl e \<Rightarrow> (Inl e, w)
      | Inr args \<Rightarrow>
         (case select_command scr args of
            Inl e \<Rightarrow> (Inl e, w)
          | Inr command \<Rightarrow>
             (let opts = \<lparr>cmd = command, cwd = working_dir workingDir process_cwd\<rparr> in
              if \<not> launchable w command then (Inl (SpawnFailed command), w)
              else (Inr (start_execution scr ps opts), w\<lparr>children := children w @ [opts]\<rparr>))))"

text \<open>
  What happens to an execution afterwards, one event of the event loop at a time; the
  code between two \<open>await\<close>s runs without interruption.  The events come in any
  order: the two reader loops are not awaited by \<open>start\<close>, which only waits for
  \<open>proc.exited\<close>.
\<close>

datatype event =
    StdoutRead "byte list"  \<comment> \<open>\<open>reader.read()\<close> on stdout resolves with a chunk\<close>
  | StdoutDone              \<comment> \<open>it resolves with \<open>done\<close>\<close>
  | StdoutFail              \<comment> \<open>it rejects\<close>
  | StderrRead "byte list"
  | StderrDone
  | StderrFail
  | Exited "int option"     \<comment> \<open>\<open>proc.exited\<close> resolves; the argument is \<open>proc.exitCode\<close>, \<open>None\<close> for \<open>null\<close>\<close>
  | ExitedFail jstring      \<comment> \<open>\<open>proc.exited\<close> rejects; the argument is \<open>String(error)\<close>\<close>
  | ConsumerRead            \<comment> \<open>the consumer of the stream calls \<open>read()\<close>\<close>
  | ConsumerCancel          \<comment> \<open>the consumer of the stream calls \<open>cancel()\<close>\<close>

definition exitMessage :: "int option \<Rightarrow> jstring" where
  "exitMessage code =
     [newline] @ lit ''[Process exited with code ''
       @ (case code of None \<Rightarrow> lit ''null'' | Some n \<Rightarrow> int_text n) @ lit '']'' @ [newline]"

definition errorMessage :: "jstring \<Rightarrow> jstring" where
  "errorMessage err = [newline] @ lit ''[Error: '' @ err @ lit '']'' @ [newline]"

definition killedMessage :: jstring where
  "killedMessage = lit ''[Process killed by user]''"

definition logExecution_call :: "int option \<Rightarrow> execution \<Rightarrow> execution" where
  "logExecution_call code x =
     x\<lparr>log_calls := log_calls x @
          [\<lparr>lc_scriptName = script_name (script x), lc_params = raw_params x,
            lc_output = outputLines x, lc_exitCode = code\<rparr>]\<rparr>"

text \<open>One turn of the stdout loop with a chunk; when \<open>enqueue\<close> throws, the \<open>catch\<close>
  of the loop reports it and the loop is over.\<close>

definition stdout_chunk :: "byte list \<Rightarrow> execution \<Rightarrow> execution" where
  "stdout_chunk bytes x =
     (let (td, decoded) = decode_stream (stdout_decoder x) bytes;
          x1 = x\<lparr>stdout_decoder := td, outputLines := outputLines x @ [decoded]\<rparr>
      in case enqueue (Stdout, decoded) (stream x1) of
           None \<Rightarrow> x1\<lparr>stdout_reading := False\<rparr>
         | Some rs \<Rightarrow> x1\<lparr>stream := rs\<rparr>)"

definition stderr_chunk :: "byte list \<Rightarrow> execution \<Rightarrow> execution" where
  "stderr_chunk bytes x =
     (let (td, decoded) = decode_stream (stderr_decoder x) bytes;
          txt = lit ''[stderr] '' @ decoded;
          x1 = x\<lparr>stderr_decoder := td, outputLines := outputLines x @ [txt]\<rparr>
      in case enqueue (Stderr, txt) (stream x1) of
           None \<Rightarrow> x1\<lparr>stderr_reading := False\<rparr>
         | Some rs \<Rightarrow> x1\<lparr>stream := rs\<rparr>)"

text \<open>The \<open>catch\<close> block of \<open>start\<close>; an exception in it rejects the promise of \<open>start\<close>.\<close>

definition start_catch :: "jstring \<Rightarrow> execution \<Rightarrow> execution" where
  "start_catch err x =
     (let x1 = x\<lparr>outputLines := outputLines x @ [errorMessage err]\<rparr> in
      case enqueue (Synthetic, errorMessage err) (stream x1) of
        None \<Rightarrow> x1\<lparr>stream := error_stream (stream x1)\<rparr>
      | Some rs \<Rightarrow>
          (case close rs of
             None \<Rightarrow> x1\<lparr>stream := error_stream rs\<rparr>
           | Some rs' \<Rightarrow> logExecution_call None (x1\<lparr>stream := rs'\<rparr>)))"

text \<open>
  \<open>start\<close> after \<open>await proc.exited\<close>; \<open>type_error\<close> is the \<open>String\<close> of the
  \<open>TypeError\<close> of the runtime.  The exit code passed on is \<open>proc.exitCode || 0\<close>.
\<close>

definition start_resume :: "jstring \<Rightarrow> int option \<Rightarrow> execution \<Rightarrow> execution" where
  "start_resume type_error code x =
     (let x1 = x\<lparr>outputLines := outputLines x @ [exitMessage code]\<rparr> in
      case enqueue (Synthetic, exitMessage code) (stream x1) of
        None \<Rightarrow> start_catch type_error x1
      | Some rs \<Rightarrow>
          (case close rs of
             None \<Rightarrow> start_catch type_error (x1\<lparr>stream := rs\<rparr>)
           | Some rs' \<Rightarrow>
               logExecution_call
                 (Some (case code of None \<Rightarrow> 0 | Some n \<Rightarrow> if n = 0 then 0 else n))
                 (x1\<lparr>stream := rs'\<rparr>)))"

text \<open>\<open>proc.kill(signal)\<close>; the argument is \<open>None\<close> when it is not passed.\<close>

definition proc_kill :: "signal option \<Rightarrow> execution \<Rightarrow> execution" where
  "proc_kill sig x =
     x\<lparr>signals := signals x @ [case sig of None \<Rightarrow> SIGTERM | Some s \<Rightarrow> s]\<rparr>"

text \<open>The \<open>cancel()\<close> of the underlying source.\<close>

definition source_cancel :: "execution \<Rightarrow> execution" where
  "source_cancel x =
     (let x1 = proc_kill None x;
          x2 = x1\<lparr>outputLines := outputLines x1 @ [killedMessage]\<rparr>
      in logExecution_call None x2)"



text \<open>One event; \<open>te\<close> is the \<open>type_error\<close> of \<open>start_resume\<close>.  An event for a
  loop that is over, or a second settling of \<open>proc.exited\<close>, changes nothing.\<close>

fun exec_step :: "jstring \<Rightarrow> event \<Rightarrow> execution \<Rightarrow> execution" where
  "exec_step te (StdoutRead bytes) x = (if stdout_reading x then stdout_chunk bytes x else x)"
| "exec_step te StdoutDone x = x\<lparr>stdout_reading := False\<rparr>"
| "exec_step te StdoutFail x = x\<lparr>stdout_reading := False\<rparr>"
| "exec_step te (StderrRead bytes) x = (if stderr_reading x then stderr_chunk bytes x else x)"
| "exec_step te StderrDone x = x\<lparr>stderr_reading := False\<rparr>"
| "exec_step te StderrFail x = x\<lparr>stderr_reading := False\<rparr>"
| "exec_step te (Exited code) x =
     (if awaiting_exit x then start_resume te code (x\<lparr>awaiting_exit := False\<rparr>) else x)"
| "exec_step te (ExitedFail err) x =
     (if awaiting_exit x then start_catch err (x\<lparr>awaiting_exit := False\<rparr>) else x)"
| "exec_step te ConsumerRead x = x\<lparr>stream := consumer_read (stream x)\<rparr>"
| "exec_step te ConsumerCancel x =
     (let (rs, called) = consumer_cancel (stream x); x1 = x\<lparr>stream := rs\<rparr>
      in if called then source_cancel x1 else x1)"

fun run :: "jstring \<Rightarrow> event list \<Rightarrow> execution \<Rightarrow> execution" where
  "run te [] x = x"
| "run te (e # es) x = run te es (exec_step te e x)"

subsection \<open>Notions used to state properties of executions\<close>

text \<open>The events that settle the outcome: the exit of the child is observed, or the
  consumer cancels.\<close>

fun is_terminal :: "event \<Rightarrow> bool" where
  "is_terminal (Exited code) = True"
| "is_terminal (ExitedFail err) = True"
| "is_terminal ConsumerCancel = True"
| "is_terminal e = False"

text \<open>The chunks a reader loop receives before it is left.\<close>

fun stdout_reads :: "event list \<Rightarrow> byte list list" where
  "stdout_reads [] = []"
| "stdout_reads (StdoutRead bytes # es) = bytes # stdout_reads es"
| "stdout_reads (StdoutDone # es) = []"
| "stdout_reads (StdoutFail # es) = []"
| "stdout_reads (e # es) = stdout_reads es"

fun stderr_reads :: "event list \<Rightarrow> byte list list" where
  "stderr_reads [] = []"
| "stderr_reads (StderrRead bytes # es) = bytes # stderr_reads es"
| "stderr_reads (StderrDone # es) = []"
| "stderr_reads (StderrFail # es) = []"
| "stderr_reads (e # es) = stderr_reads es"

text \<open>The texts of the chunks of one origin, in order.\<close>

fun chunks_of :: "origin \<Rightarrow> chunk list \<Rightarrow> jstring list" where
  "chunks_of k [] = []"
| "chunks_of k ((k', t) # cs) = (if k' = k then t # chunks_of k cs else chunks_of k cs)"

text \<open>
  The four situations an execution can be in.  \<open>running\<close>: no outcome yet.
  \<open>completed\<close>: \<open>start\<close> has enqueued its last chunk, requested the close and
  logged.  \<open>cancelled\<close>: the consumer cancelled first.  \<open>completed_cancelled\<close>: the
  consumer cancelled after \<open>start\<close> had requested the close, before reading the queue
  empty.
\<close>

definition running :: "execution \<Rightarrow> bool" where
  "running x =
     (awaiting_exit x \<and> canCloseOrEnqueue (stream x) \<and> log_calls x = [] \<and> signals x = [] \<and>
      chunks_of Synthetic (enqueued (stream x)) = [])"

definition completed :: "execution \<Rightarrow> bool" where
  "completed x =
     (\<not> awaiting_exit x \<and> closeRequested (stream x) \<and> length (log_calls x) = 1 \<and> signals x = [] \<and>
      (state (stream x) = Closed \<or> state (stream x) = Readable \<and> queue (stream x) \<noteq> []) \<and>
      length (chunks_of Synthetic (enqueued (stream x))) = 1 \<and>
      enqueued (stream x) \<noteq> [] \<and> fst (last (enqueued (stream x))) = Synthetic)"

definition cancelled :: "execution \<Rightarrow> bool" where
  "cancelled x =
     (state (stream x) = Closed \<and> \<not> closeRequested (stream x) \<and> signals x = [SIGTERM] \<and>
      length (log_calls x) = 1 \<and> lc_exitCode (last (log_calls x)) = None \<and>
      chunks_of Synthetic (enqueued (stream x)) = [])"

definition completed_cancelled :: "execution \<Rightarrow> bool" where
  "completed_cancelled x =
     (\<not> awaiting_exit x \<and> state (stream x) = Closed \<and> closeRequested (stream x) \<and> signals x = [SIGTERM] \<and>
      length (log_calls x) = 2 \<and> lc_exitCode (last (log_calls x)) = None \<and>
      length (chunks_of Synthetic (enqueued (stream x))) = 1 \<and>
      enqueued (stream x) \<noteq> [] \<and> fst (last (enqueued (stream x))) = Synthetic)"

section \<open>The execution ledger (logger.ts)\<close>

definition MAX_LINES :: nat where
  "MAX_LINES = 35000"

text \<open>\<open>s.split('\n')\<close> and \<open>lines.join('\n')\<close>.\<close>

fun split_lines :: "jstring \<Rightarrow> jstring list" where
  "split_lines [] = [[]]"
| "split_lines (c # cs) =
     (if c = newline then [] # split_lines cs
      else (case split_lines cs of l # ls \<Rightarrow> (c # l) # ls | [] \<Rightarrow> [[c]]))"

fun join_lines :: "jstring list \<Rightarrow> jstring" where
  "join_lines [] = []"
| "join_lines [l] = l"
| "join_lines (l # m # ls) = l @ [newline] @ join_lines (m # ls)"

text \<open>\<open>lines.slice(-n)\<close>: the last \<open>n\<close> elements, and all of them for \<open>n = 0\<close>.\<close>

definition slice_last :: "nat \<Rightarrow> 'a list \<Rightarrow> 'a list" where
  "slice_last n xs = (if n = 0 then xs else drop (length xs - n) xs)"

text \<open>
  \<open>logLines\<close> and \<open>logContent\<close> of \<open>logExecution\<close>.  The clock (\<open>timestamp\<close>) and
  \<open>JSON.stringify(params)\<close> are taken as given.
\<close>

definition logLines :: "jstring \<Rightarrow> jstring \<Rightarrow> jstring \<Rightarrow> jstring list \<Rightarrow> int option \<Rightarrow> jstring list" where
  "logLines timestamp scriptName params_json output exitCode =
     [[], replicate 80 (of_char CHR ''=''),
      lit ''['' @ timestamp @ lit ''] Executed: '' @ scriptName,
      lit ''Parameters: '' @ params_json,
      lit ''Exit Code: '' @ (case exitCode of None \<Rightarrow> lit ''N/A'' | Some n \<Rightarrow> int_text n),
      replicate 80 (of_char CHR ''-'')]
     @ output @ [replicate 80 (of_char CHR ''=''), []]"

definition logContent :: "jstring \<Rightarrow> jstring \<Rightarrow> jstring \<Rightarrow> jstring list \<Rightarrow> int option \<Rightarrow> jstring" where
  "logContent timestamp scriptName params_json output exitCode =
     join_lines (logLines timestamp scriptName params_json output exitCode)"

text \<open>
  The file operations can fail; each \<open>try\<close> of the source catches the failure and
  reports it.  \<open>io\<close> says which operations of one cycle succeed.
\<close>

record io =
  append_ok :: bool
  read_ok :: bool
  write_ok :: bool

definition appendFile :: "jstring option \<Rightarrow> jstring \<Rightarrow> jstring option" where
  "appendFile file content = (case file of None \<Rightarrow> Some content | Some old \<Rightarrow> Some (old @ content))"

definition trimLogFile :: "io \<Rightarrow> jstring option \<Rightarrow> jstring option" where
  "trimLogFile ok file =
     (case file of
        None \<Rightarrow> file
      | Some content \<Rightarrow>
          if \<not> read_ok ok then file
          else (let lines = split_lines content in
                if length lines > MAX_LINES
                then (let trimmed = join_lines (slice_last MAX_LINES lines) in
                      if write_ok ok then Some trimmed else file)
                else file))"

text \<open>
  The log file after \<open>logExecution(scriptName, params, output, exitCode)\<close> has
  appended its entry and trimmed.
\<close>

definition logExecution ::
  "io \<Rightarrow> jstring \<Rightarrow> jstring option \<Rightarrow> jstring \<Rightarrow> jstring \<Rightarrow> jstring list \<Rightarrow> int option \<Rightarrow> jstring option"
where
  "logExecution ok timestamp file scriptName params_json output exitCode =
     (let content = logContent timestamp scriptName params_json output exitCode in
      if \<not> append_ok ok then file else trimLogFile ok (appendFile file content))"


section \<open>Sample inputs\<close>

text \<open>The descriptor the parser builds for \<open>scripts/port-killer.sh\<close>.\<close>

definition port_killer :: ScriptMetadata where
  "port_killer =
     \<lparr>script_name = lit ''Port Killer'',
      script_description = lit ''Kill processes running on a specific port'',
      category = lit ''debugging'', script_context = Terminal,
      params =
        [\<lparr>name = lit ''port'', ptype = TNumber, required = True,
          description = Some (lit ''The port number to kill''),
          options = None, default_value = None\<rparr>],
      filePath = lit ''/srv/scripts/port-killer.sh'', fileName = lit ''port-killer.sh''\<rparr>"


text \<open>The descriptor the parser builds for \<open>scripts/App-map.ts\<close>.\<close>

definition app_map :: ScriptMetadata where
  "app_map =
     \<lparr>script_name = lit ''App Map'',
      script_description = lit ''Maps the application structure starting from the given entry point.'',
      category = lit ''development'', script_context = Terminal,
      params =
        [\<lparr>name = lit ''entry'', ptype = TString, required = True,
          description = Some (lit ''The entry point of the application''),
          options = None, default_value = None\<rparr>,
         \<lparr>name = lit ''appType'', ptype = TSelect, required = False,
          description = Some (lit ''The type of application (default: vite)''),
          options = Some [lit ''vite'', lit ''none''], default_value = None\<rparr>,
         \<lparr>name = lit ''ignoreExternals'', ptype = TBoolean, required = False,
          description = Some (lit ''Whether to ignore external dependencies (default: false)''),
          options = None, default_value = None\<rparr>],
      filePath = lit ''/srv/scripts/App-map.ts'', fileName = lit ''App-map.ts''\<rparr>"

text \<open>A parameter mapping given as a list of entries; a key that is not there is \<open>undefined\<close>.\<close>

fun params_of :: "(string \<times> jsval) list \<Rightarrow> params" where
  "params_of [] k = JUndefined"
| "params_of ((n, v) # rest) k = (if k = lit n then v else params_of rest k)"

definition idle_world :: world where
  "idle_world = \<lparr>children = [], launchable = (\<lambda>_. True), log_file = None\<rparr>"

text \<open>File operations that all succeed, a clock reading, and an output of 35000 chunks.\<close>

definition all_ok :: io where
  "all_ok = \<lparr>append_ok = True, read_ok = True, write_ok = True\<rparr>"

definition sample_time :: jstring where
  "sample_time = lit ''2025-01-01T00:00:00.000Z''"

definition long_output :: "jstring list" where
  "long_output = replicate 35000 (lit ''x'')"

text \<open>An execution of \<open>App-map.ts\<close> that has just been started.\<close>

definition sample_params :: params where
  "sample_params = params_of [(''entry'', JStr (lit ''src/main.ts''))]"

definition sample_execution :: execution where
  "sample_execution =
     start_execution app_map sample_params
       \<lparr>cmd = [lit ''bun'', lit ''run'', lit ''/srv/scripts/App-map.ts'', lit ''src/main.ts''],
        cwd = lit ''/srv''\<rparr>"

section \<open>Parameter binding: what the loop computes\<close>

lemma bind_loop_find:
  "bind_loop xs ps args =
     (case List.find (\<lambda>p. required p \<and> is_blank (ps (name p))) xs of
        Some p \<Rightarrow> Inl (RequiredParameterMissing (name p))
      | None \<Rightarrow> Inr (args @ map (\<lambda>p. js_String (ps (name p)))
                               (filter (\<lambda>p. \<not> is_blank (ps (name p))) xs)))"
  by (induction xs arbitrary: args) (auto simp: is_blank_def Let_def split: option.splits)

lemma lit_simps: "lit [] = []" "lit (c # cs) = of_char c # lit cs"
  by (simp_all add: lit_def)

text \<open>
  C3.  Binding fails with the missing-required-parameter error if and only if some
  required parameter has a value that is \<open>undefined\<close>, \<open>null\<close> or the empty string;
  the error names the first such parameter of the declaration order.
\<close>

theorem bind_fails_iff_required_blank:
  "((\<exists>n. bind_args scr ps = Inl (RequiredParameterMissing n)) \<longleftrightarrow>
      (\<exists>p\<in>set (params scr). required p \<and> is_blank (ps (name p)))) \<and>
   (\<forall>e. bind_args scr ps = Inl e \<longrightarrow>
      (\<exists>p. List.find (\<lambda>p. required p \<and> is_blank (ps (name p))) (params scr) = Some p \<and>
           e = RequiredParameterMissing (name p)))"
proof -
  let ?missing = "\<lambda>p. required p \<and> is_blank (ps (name p))"
  show ?thesis
  proof (cases "List.find ?missing (params scr)")
    case None
    then have "\<not> (\<exists>p\<in>set (params scr). ?missing p)"
      by (simp add: find_None_iff)
    with None show ?thesis
      by (simp add: bind_args_def bind_loop_find)
  next
    case (Some p)
    then have "p \<in> set (params scr) \<and> ?missing p"
      by (auto simp: find_Some_iff)
    with Some show ?thesis
      by (auto simp: bind_args_def bind_loop_find)
  qed
qed

theorem bind_fails_iff_required_blank_witness:
  "bind_args app_map (params_of [(''entry'', JStr []), (''appType'', JStr (lit ''vite''))])
     = Inl (RequiredParameterMissing (lit ''entry'')) \<and>
   (\<exists>p\<in>set (params app_map).
      required p \<and> is_blank (params_of [(''entry'', JStr []), (''appType'', JStr (lit ''vite''))] (name p)))"
  using bind_fails_iff_required_blank
    [of app_map "params_of [(''entry'', JStr []), (''appType'', JStr (lit ''vite''))]"]
  by (simp add: bind_args_def app_map_def is_blank_def lit_simps)

text \<open>
  C4.  When every required parameter has a present value, binding succeeds; the
  argument list has one entry for each declared parameter with a present value, in
  declaration order, and each entry is \<open>String(value)\<close>: \<open>true\<close> or \<open>false\<close> for
  a boolean, the textual form for a number (decimal notation for the numbers of
  \<open>JNum\<close>).  A parameter without a present value contributes nothing.
\<close>

theorem bind_args_present_values:
  assumes "\<forall>p\<in>set (params scr). required p \<longrightarrow> \<not> is_blank (ps (name p))"
  shows "\<exists>args. bind_args scr ps = Inr args \<and>
           args = map (\<lambda>p. js_String (ps (name p)))
                      (filter (\<lambda>p. \<not> is_blank (ps (name p))) (params scr)) \<and>
           length args = length (filter (\<lambda>p. \<not> is_blank (ps (name p))) (params scr))"
proof -
  from assms have "List.find (\<lambda>p. required p \<and> is_blank (ps (name p))) (params scr) = None"
    by (auto simp: find_None_iff)
  then show ?thesis
    by (simp add: bind_args_def bind_loop_find)
qed

theorem bind_args_present_values_witness:
  "bind_args app_map (params_of [(''entry'', JStr (lit ''src/main.ts'')), (''appType'', JNull),
                                (''ignoreExternals'', JBool True)])
     = Inr [lit ''src/main.ts'', lit ''true''] \<and>
   bind_args port_killer (params_of [(''port'', JNum (js_integer 3000))]) = Inr [lit ''3000''] \<and>
   bind_args port_killer (params_of [(''port'', JNum (js_integer (- 42)))]) = Inr [lit ''-42''] \<and>
   bind_args port_killer (params_of [(''port'', JOther (lit ''1e+21''))]) = Inr [lit ''1e+21'']"
  using bind_args_present_values
    [of app_map "params_of [(''entry'', JStr (lit ''src/main.ts'')), (''appType'', JNull),
                            (''ignoreExternals'', JBool True)]"]
    bind_args_present_values [of port_killer "params_of [(''port'', JNum (js_integer 3000))]"]
    bind_args_present_values [of port_killer "params_of [(''port'', JNum (js_integer (- 42)))]"]
    bind_args_present_values [of port_killer "params_of [(''port'', JOther (lit ''1e+21''))]"]
  by (simp add: app_map_def port_killer_def is_blank_def lit_simps int_text_def js_integer_inverse)

text \<open>
  C10.  The boolean \<open>false\<close> and the number \<open>0\<close> are present values: neither is
  blank for the test of the loop, so a parameter with such a value, required or not,
  never raises the error, and the loop appends \<open>"false"\<close> or \<open>"0"\<close> and goes on.
\<close>

theorem false_and_zero_are_present:
  assumes "v = JBool False \<or> v = JNum 0"
  shows "\<not> is_blank v \<and>
         js_String v = (if v = JBool False then lit ''false'' else lit ''0'') \<and>
         (\<forall>param rest ps args. ps (name param) = v \<longrightarrow>
            bind_loop (param # rest) ps args = bind_loop rest ps (args @ [js_String v]))"
  using assms by (auto simp: is_blank_def int_text_def lit_simps zero_js_integer.rep_eq)

theorem false_and_zero_are_present_witness:
  "bind_loop [\<lparr>name = lit ''port'', ptype = TNumber, required = True, description = None,
               options = None, default_value = None\<rparr>,
              \<lparr>name = lit ''dryRun'', ptype = TBoolean, required = True, description = None,
               options = None, default_value = None\<rparr>]
     (params_of [(''port'', JNum 0), (''dryRun'', JBool False)]) []
   = Inr [lit ''0'', lit ''false'']"
  using false_and_zero_are_present [of "JNum 0"] false_and_zero_are_present [of "JBool False"]
  by (simp add: lit_simps)

text \<open>
  C5.  When some required parameter has no present value, \<open>executeScript\<close> throws
  the error at once: it returns no execution, no child is spawned and the log file is
  not written (the world is as it was).
\<close>

theorem invalid_request_has_no_effect:
  assumes "\<exists>p\<in>set (params scr). required p \<and> is_blank (ps (name p))"
  shows "\<exists>n. executeScript scr ps workingDir process_cwd w = (Inl (RequiredParameterMissing n), w)"
proof -
  from assms obtain p where "List.find (\<lambda>p. required p \<and> is_blank (ps (name p))) (params scr) = Some p"
    by (cases "List.find (\<lambda>p. required p \<and> is_blank (ps (name p))) (params scr)")
       (auto simp: find_None_iff)
  then show ?thesis
    by (simp add: executeScript_def bind_args_def bind_loop_find)
qed

theorem invalid_request_has_no_effect_witness:
  "executeScript app_map (params_of [(''appType'', JStr (lit ''vite''))]) None (lit ''/srv'') idle_world
     = (Inl (RequiredParameterMissing (lit ''entry'')), idle_world)"
  using invalid_request_has_no_effect
    [of app_map "params_of [(''appType'', JStr (lit ''vite''))]" None "lit ''/srv''" idle_world]
  by (simp add: executeScript_def bind_args_def app_map_def is_blank_def lit_simps)

section \<open>The ledger: lines, trimming\<close>

lemma split_lines_nonempty: "split_lines s \<noteq> []"
  by (induction s) (auto split: list.splits)

lemma join_split_lines: "join_lines (split_lines s) = s"
proof (induction s)
  case Nil
  show ?case by simp
next
  case (Cons c cs)
  obtain l ls where ls: "split_lines cs = l # ls"
    using split_lines_nonempty [of cs] by (cases "split_lines cs") auto
  with Cons show ?case
    by (cases ls) auto
qed

lemma split_lines_no_newline: "l \<in> set (split_lines s) \<Longrightarrow> newline \<notin> set l"
  by (induction s arbitrary: l) (auto split: if_splits list.splits)

lemma split_lines_line: "newline \<notin> set l \<Longrightarrow> split_lines (l @ newline # s) = l # split_lines s"
  by (induction l) (auto split: list.splits)

lemma split_lines_single: "newline \<notin> set l \<Longrightarrow> split_lines l = [l]"
  by (induction l) (auto split: list.splits)

lemma split_join_lines:
  "ls \<noteq> [] \<Longrightarrow> \<forall>l\<in>set ls. newline \<notin> set l \<Longrightarrow> split_lines (join_lines ls) = ls"
  by (induction ls rule: join_lines.induct) (auto simp: split_lines_line split_lines_single)

lemma join_lines_append:
  "xs \<noteq> [] \<Longrightarrow> ys \<noteq> [] \<Longrightarrow> join_lines (xs @ ys) = join_lines xs @ newline # join_lines ys"
proof (induction xs rule: join_lines.induct)
  case 1
  then show ?case by simp
next
  case (2 l)
  then show ?case by (cases ys) auto
next
  case (3 l m ls)
  then show ?case by simp
qed

lemma trim_lines:
  assumes "read_ok ok" "write_ok ok"
  shows "trimLogFile ok (Some content) =
     Some (if length (split_lines content) > MAX_LINES
           then join_lines (drop (length (split_lines content) - MAX_LINES) (split_lines content))
           else content)"
  using assms by (simp add: trimLogFile_def slice_last_def MAX_LINES_def Let_def)

lemma split_trimmed:
  assumes "0 < n" "n < length (split_lines content)"
  shows "split_lines (join_lines (drop (length (split_lines content) - n) (split_lines content)))
         = drop (length (split_lines content) - n) (split_lines content)"
proof (rule split_join_lines)
  show "drop (length (split_lines content) - n) (split_lines content) \<noteq> []"
    using assms by simp
  show "\<forall>l\<in>set (drop (length (split_lines content) - n) (split_lines content)). newline \<notin> set l"
    using split_lines_no_newline [of _ content] by (auto dest: in_set_dropD)
qed

lemma cut_at_line:
  assumes "0 < k" "k < length (split_lines content)"
  shows "content = join_lines (take k (split_lines content)) @ newline #
                   join_lines (drop k (split_lines content))"
proof -
  have "content = join_lines (take k (split_lines content) @ drop k (split_lines content))"
    by (simp add: join_split_lines)
  also have "\<dots> = join_lines (take k (split_lines content)) @ newline #
                   join_lines (drop k (split_lines content))"
    using assms by (intro join_lines_append) auto
  finally show ?thesis .
qed


text \<open>
  C8.  After an append-plus-trim cycle whose file operations succeed, the log file has
  at most \<open>MAX_LINES\<close> lines (as \<open>split('\\n')\<close> counts them): when the appended
  content has more, the file holds exactly its last \<open>MAX_LINES\<close> lines, and
  otherwise the file is the appended content, unchanged.
\<close>

theorem log_within_ceiling:
  assumes "append_ok ok" "read_ok ok" "write_ok ok"
  shows "\<exists>new. logExecution ok ts file scriptName pj output exitCode = Some new \<and>
           length (split_lines new) \<le> MAX_LINES \<and>
           (if MAX_LINES < length (split_lines ((case file of None \<Rightarrow> [] | Some old \<Rightarrow> old)
                                              @ logContent ts scriptName pj output exitCode))
            then split_lines new =
                   drop (length (split_lines ((case file of None \<Rightarrow> [] | Some old \<Rightarrow> old)
                                              @ logContent ts scriptName pj output exitCode)) - MAX_LINES)
                        (split_lines ((case file of None \<Rightarrow> [] | Some old \<Rightarrow> old)
                                      @ logContent ts scriptName pj output exitCode))
            else new = (case file of None \<Rightarrow> [] | Some old \<Rightarrow> old)
                         @ logContent ts scriptName pj output exitCode)"
proof -
  define appended where
    "appended = (case file of None \<Rightarrow> [] | Some old \<Rightarrow> old) @ logContent ts scriptName pj output exitCode"
  have app: "appendFile file (logContent ts scriptName pj output exitCode) = Some appended"
    by (simp add: appendFile_def appended_def split: option.splits)
  have res: "logExecution ok ts file scriptName pj output exitCode =
      Some (if length (split_lines appended) > MAX_LINES
            then join_lines (drop (length (split_lines appended) - MAX_LINES) (split_lines appended))
            else appended)"
    using assms by (simp add: logExecution_def app trim_lines)
  show ?thesis
  proof (cases "MAX_LINES < length (split_lines appended)")
    case True
    have "split_lines (join_lines (drop (length (split_lines appended) - MAX_LINES) (split_lines appended)))
          = drop (length (split_lines appended) - MAX_LINES) (split_lines appended)"
      using True by (intro split_trimmed) (simp_all add: MAX_LINES_def)
    with True show ?thesis
      unfolding appended_def [symmetric] res by simp
  next
    case False
    then show ?thesis
      unfolding appended_def [symmetric] res by simp
  qed
qed

theorem log_within_ceiling_witness:
  "\<exists>new. logExecution all_ok sample_time None (lit ''Port Killer'') (lit ''{}'') long_output (Some 0)
            = Some new \<and> length (split_lines new) \<le> MAX_LINES"
  using log_within_ceiling
    [of all_ok sample_time None "lit ''Port Killer''" "lit ''{}''" long_output "Some 0"]
  by (auto simp: all_ok_def)

text \<open>
  C7, as the code has it.  After an append-plus-trim cycle whose file operations
  succeed, the log file is a suffix of the appended content that begins at the start of
  a line: what the trim drops is nothing or ends with a newline.  Nothing is dropped
  when the appended content has at most \<open>MAX_LINES\<close> lines.  The cut is made by
  lines, so it can fall inside an entry.
\<close>

theorem trim_cuts_at_line_boundary:
  assumes "append_ok ok" "read_ok ok" "write_ok ok"
  shows "\<exists>new dropped. logExecution ok ts file scriptName pj output exitCode = Some new \<and>
           (case file of None \<Rightarrow> [] | Some old \<Rightarrow> old) @ logContent ts scriptName pj output exitCode
             = dropped @ new \<and>
           (dropped = [] \<or> last dropped = newline) \<and>
           (length (split_lines ((case file of None \<Rightarrow> [] | Some old \<Rightarrow> old)
               @ logContent ts scriptName pj output exitCode)) \<le> MAX_LINES \<longrightarrow> dropped = [])"
proof -
  define appended where
    "appended = (case file of None \<Rightarrow> [] | Some old \<Rightarrow> old) @ logContent ts scriptName pj output exitCode"
  have app: "appendFile file (logContent ts scriptName pj output exitCode) = Some appended"
    by (simp add: appendFile_def appended_def split: option.splits)
  have res: "logExecution ok ts file scriptName pj output exitCode =
      Some (if length (split_lines appended) > MAX_LINES
            then join_lines (drop (length (split_lines appended) - MAX_LINES) (split_lines appended))
            else appended)"
    using assms by (simp add: logExecution_def app trim_lines)
  show ?thesis
  proof (cases "MAX_LINES < length (split_lines appended)")
    case True
    define k where "k = length (split_lines appended) - MAX_LINES"
    have "appended = (join_lines (take k (split_lines appended)) @ [newline])
                     @ join_lines (drop k (split_lines appended))"
      using True cut_at_line [of k appended] by (simp add: k_def MAX_LINES_def)
    with True show ?thesis
      unfolding appended_def [symmetric] res k_def [symmetric]
      by (intro exI [of _ "join_lines (drop k (split_lines appended))"]
                exI [of _ "join_lines (take k (split_lines appended)) @ [newline]"]) simp
  next
    case False
    then show ?thesis
      unfolding appended_def [symmetric] res by simp
  qed
qed

theorem trim_cuts_at_line_boundary_witness:
  "\<exists>new dropped.
      logExecution all_ok sample_time None (lit ''Port Killer'') (lit ''{}'') long_output (Some 0)
        = Some new \<and>
      logContent sample_time (lit ''Port Killer'') (lit ''{}'') long_output (Some 0) = dropped @ new \<and>
      (dropped = [] \<or> last dropped = newline)"
  using trim_cuts_at_line_boundary
    [of all_ok sample_time None "lit ''Port Killer''" "lit ''{}''" long_output "Some 0"]
  by (auto simp: all_ok_def)

lemma long_entry_lines:
  "logLines sample_time (lit ''Port Killer'') (lit ''{}'') long_output (Some 0) =
     [[], replicate 80 (of_char CHR ''=''),
      lit ''['' @ sample_time @ lit ''] Executed: '' @ lit ''Port Killer'',
      lit ''Parameters: '' @ lit ''{}'', lit ''Exit Code: '' @ lit ''0'',
      replicate 80 (of_char CHR ''-''), lit ''x'', lit ''x'']
     @ (replicate 34998 (lit ''x'') @ [replicate 80 (of_char CHR ''=''), []])"
proof -
  have "long_output = lit ''x'' # lit ''x'' # replicate 34998 (lit ''x'')"
    unfolding long_output_def
    by (simp only: replicate_Suc [symmetric]) simp
  then show ?thesis
    by (simp add: logLines_def int_text_def lit_simps)
qed

lemma long_entry_no_newline:
  "\<forall>l\<in>set (logLines sample_time (lit ''Port Killer'') (lit ''{}'') long_output (Some 0)). newline \<notin> set l"
  unfolding long_entry_lines
  by (simp add: lit_simps sample_time_def newline_def)

text \<open>
  C7, as stated, fails.  One entry with 35000 output chunks is appended to a log that
  does not exist yet.  The entry has 35008 lines, the trim keeps the last 35000: the
  file is left without the head of its only entry and with 34998 of its 35000 chunks,
  so it is neither that entry nor empty.
\<close>

theorem trim_cuts_inside_entry:
  "logExecution all_ok sample_time None (lit ''Port Killer'') (lit ''{}'') long_output (Some 0)
     = Some (join_lines (replicate 34998 (lit ''x'') @ [replicate 80 (of_char CHR ''=''), []])) \<and>
   join_lines (replicate 34998 (lit ''x'') @ [replicate 80 (of_char CHR ''=''), []])
     \<noteq> logContent sample_time (lit ''Port Killer'') (lit ''{}'') long_output (Some 0) \<and>
   join_lines (replicate 34998 (lit ''x'') @ [replicate 80 (of_char CHR ''=''), []]) \<noteq> []"
proof -
  let ?ls = "logLines sample_time (lit ''Port Killer'') (lit ''{}'') long_output (Some 0)"
  let ?kept = "replicate 34998 (lit ''x'') @ [replicate 80 (of_char CHR ''=''), []]"
  have len: "length ?ls = 35008"
    unfolding long_entry_lines by simp
  have split: "split_lines (join_lines ?ls) = ?ls"
    using long_entry_no_newline by (intro split_join_lines) (auto simp: logLines_def)
  have kept: "drop 8 ?ls = ?kept"
    unfolding long_entry_lines by simp
  have 1: "logExecution all_ok sample_time None (lit ''Port Killer'') (lit ''{}'') long_output (Some 0)
        = Some (join_lines ?kept)"
    by (simp add: logExecution_def logContent_def appendFile_def all_ok_def trim_lines split len
                  MAX_LINES_def kept)
  have k: "?kept = lit ''x'' # lit ''x'' # (replicate 34996 (lit ''x'') @ [replicate 80 (of_char CHR ''=''), []])"
    by (simp only: replicate_Suc [symmetric] append_Cons [symmetric]) simp
  have 2: "hd (join_lines ?kept) = of_char CHR ''x''"
    unfolding k by (simp add: lit_simps)
  have 3: "hd (join_lines ?ls) = newline"
    by (simp add: logLines_def)
  have "join_lines ?kept \<noteq> join_lines ?ls"
    using 2 3 by (auto simp: newline_def)
  moreover have "join_lines ?kept \<noteq> []"
    unfolding k by (simp add: lit_simps)
  ultimately show ?thesis
    using 1 by (simp add: logContent_def)
qed

section \<open>The decoder: streaming and round trip\<close>

text \<open>The bit operations of the decoder and the encoder, as arithmetic.\<close>

lemma and_mask_nat: "(b::nat) AND 0x3F = b mod 64" "(b::nat) AND 0x1F = b mod 32" "(b::nat) AND 0xF = b mod 16" "(b::nat) AND 0x7 = b mod 8"
  using take_bit_eq_mod[of 6 b] take_bit_eq_mod[of 5 b] take_bit_eq_mod[of 4 b] take_bit_eq_mod[of 3 b]
  by (simp_all add: take_bit_eq_mask mask_eq_exp_minus_1)

lemma push_or_nat: "push_bit 6 (c::nat) OR (b AND 0x3F) = c * 64 + b mod 64"
proof -
  have "push_bit 6 c AND take_bit 6 b = 0"
    by (auto simp: bit_eq_iff bit_simps)
  then have "push_bit 6 c + take_bit 6 b = push_bit 6 c OR take_bit 6 b"
    by (rule disjunctive_add_eq_or)
  then show ?thesis
    by (simp add: and_mask_nat take_bit_eq_mod push_bit_eq_mult)
qed

lemma or80_nat: "(0x80::nat) OR (b AND 0x3F) = b mod 64 + 128"
  using push_or_nat[of 2 b] by simp

lemma or80_mod: "(0x80::nat) OR (b mod 64) = b mod 64 + 128"
  using or80_nat[of b] by (simp add: and_mask_nat)

lemma drop_bit_nat: "drop_bit 6 (c::nat) = c div 64" "drop_bit 12 (c::nat) = c div 4096" "drop_bit 18 c = c div 262144"
  by (simp_all add: drop_bit_eq_div)

lemmas bitarith = and_mask_nat push_or_nat or80_nat or80_mod drop_bit_nat

lemma unat_byte: "x < 256 \<Longrightarrow> unat (of_nat x :: byte) = x"
  by (simp add: unat_of_nat)

lemma mod_shift:
  "q < 32 \<Longrightarrow> (q + 192) mod 32 = (q::nat)"
  "q < 16 \<Longrightarrow> (q + 224) mod 16 = (q::nat)"
  "q < 8 \<Longrightarrow> (q + 240) mod 8 = (q::nat)"
  "q < 64 \<Longrightarrow> (q + 128) mod 64 = (q::nat)"
proof -
  have "(q + 192) mod 32 = (q + 6 * 32) mod 32" "(q + 224) mod 16 = (q + 14 * 16) mod 16"
       "(q + 240) mod 8 = (q + 30 * 8) mod 8" "(q + 128) mod 64 = (q + 2 * 64) mod 64"
    by simp_all
  then have e: "(q + 192) mod 32 = q mod 32" "(q + 224) mod 16 = q mod 16"
       "(q + 240) mod 8 = q mod 8" "(q + 128) mod 64 = q mod 64"
    by (simp_all only: mod_mult_self1)
  show "q < 32 \<Longrightarrow> (q + 192) mod 32 = q" "q < 16 \<Longrightarrow> (q + 224) mod 16 = q"
    "q < 8 \<Longrightarrow> (q + 240) mod 8 = q" "q < 64 \<Longrightarrow> (q + 128) mod 64 = q"
    by (simp_all add: e)
qed

lemma push_or_lt: "r < 64 \<Longrightarrow> push_bit 6 (c::nat) OR r = c * 64 + r"
  using push_or_nat[of c r] by (simp add: and_mask_nat)

lemma fresh_sel:
  "code_point utf8_fresh = 0" "bytes_seen utf8_fresh = 0" "bytes_needed utf8_fresh = 0"
  "lower_boundary utf8_fresh = 0x80" "upper_boundary utf8_fresh = 0xBF"
  by (simp_all add: utf8_fresh_def)

lemma handler_ascii:
  "unat b < 0x80 \<Longrightarrow> utf8_handler utf8_fresh b = (utf8_fresh, [unat b])"
  by (simp add: utf8_handler_def utf8_lead_def utf8_fresh_def)

lemma handler_lead2:
  "unat b = q + 192 \<Longrightarrow> 2 \<le> q \<Longrightarrow> q < 32 \<Longrightarrow>
   utf8_handler utf8_fresh b = (utf8_fresh\<lparr>bytes_needed := 1, code_point := q\<rparr>, [])"
  by (simp add: utf8_handler_def utf8_lead_def utf8_fresh_def bitarith mod_shift)

lemma handler_lead3:
  "unat b = q + 224 \<Longrightarrow> q < 16 \<Longrightarrow>
   utf8_handler utf8_fresh b =
     (utf8_fresh\<lparr>lower_boundary := (if q = 0 then 0xA0 else 0x80),
                 upper_boundary := (if q = 13 then 0x9F else 0xBF),
                 bytes_needed := 2, code_point := q\<rparr>, [])"
  by (simp add: utf8_handler_def utf8_lead_def utf8_fresh_def bitarith mod_shift)

lemma handler_lead4:
  "unat b = q + 240 \<Longrightarrow> q < 5 \<Longrightarrow>
   utf8_handler utf8_fresh b =
     (utf8_fresh\<lparr>lower_boundary := (if q = 0 then 0x90 else 0x80),
                 upper_boundary := (if q = 4 then 0x8F else 0xBF),
                 bytes_needed := 3, code_point := q\<rparr>, [])"
  by (simp add: utf8_handler_def utf8_lead_def utf8_fresh_def bitarith mod_shift)

lemma handler_cont:
  "unat b = r + 128 \<Longrightarrow> r < 64 \<Longrightarrow> bytes_needed d \<noteq> 0 \<Longrightarrow>
   lower_boundary d \<le> r + 128 \<Longrightarrow> r + 128 \<le> upper_boundary d \<Longrightarrow>
   utf8_handler d b =
     (if bytes_seen d + 1 \<noteq> bytes_needed d
      then (d\<lparr>lower_boundary := 0x80, upper_boundary := 0xBF,
               code_point := code_point d * 64 + r, bytes_seen := bytes_seen d + 1\<rparr>, [])
      else (utf8_fresh, [code_point d * 64 + r]))"
  by (simp add: utf8_handler_def utf8_fresh_def bitarith mod_shift push_or_lt Let_def)

lemma run1: "unat b < 0x80 \<Longrightarrow> utf8_run utf8_fresh [b] = (utf8_fresh, [unat b])"
  by (simp add: handler_ascii)

lemma run2:
  assumes "unat b1 = q1 + 192" "unat b2 = q2 + 128" "2 \<le> q1" "q1 < 32" "q2 < 64"
  shows "utf8_run utf8_fresh [b1, b2] = (utf8_fresh, [q1 * 64 + q2])"
  using assms
  by (simp add: handler_lead2 handler_cont fresh_sel)

lemma run3:
  assumes "unat b1 = q1 + 224" "unat b2 = q2 + 128" "unat b3 = q3 + 128"
    "q1 < 16" "q2 < 64" "q3 < 64" "q1 = 0 \<longrightarrow> 32 \<le> q2" "q1 = 13 \<longrightarrow> q2 < 32"
  shows "utf8_run utf8_fresh [b1, b2, b3] = (utf8_fresh, [(q1 * 64 + q2) * 64 + q3])"
  using assms
  by (cases "q1 = 0"; cases "q1 = 13"; simp add: handler_lead3 handler_cont fresh_sel)

lemma run4:
  assumes "unat b1 = q1 + 240" "unat b2 = q2 + 128" "unat b3 = q3 + 128" "unat b4 = q4 + 128"
    "q1 < 5" "q2 < 64" "q3 < 64" "q4 < 64" "q1 = 0 \<longrightarrow> 16 \<le> q2" "q1 = 4 \<longrightarrow> q2 < 16"
  shows "utf8_run utf8_fresh [b1, b2, b3, b4] = (utf8_fresh, [((q1 * 64 + q2) * 64 + q3) * 64 + q4])"
  using assms
  by (cases "q1 = 0"; cases "q1 = 4"; simp add: handler_lead4 handler_cont fresh_sel)


lemma div4096: "(c::nat) div 4096 = c div 64 div 64"
  using div_mult2_eq[of c 64 64] by simp

lemma div262144: "(c::nat) div 262144 = c div 64 div 64 div 64"
  using div_mult2_eq[of c 4096 64] by (simp add: div4096)

lemma unat_byte_add: "x + k < 256 \<Longrightarrow> unat (of_nat (x + k) :: byte) = x + k"
  by (simp only: unat_of_nat) simp

lemma enc_dec_scalar:
  assumes "is_scalar c"
  shows "utf8_run utf8_fresh (utf8_encode_scalar c) = (utf8_fresh, [c])"
proof -
  define q0 where "q0 = c mod 64"
  define c1 where "c1 = c div 64"
  define q1 where "q1 = c1 mod 64"
  define c2 where "c2 = c1 div 64"
  define q2 where "q2 = c2 mod 64"
  define c3 where "c3 = c2 div 64"
  have c: "c = c1 * 64 + q0" and c1: "c1 = c2 * 64 + q1" and c2: "c2 = c3 * 64 + q2"
    by (simp_all add: q0_def c1_def q1_def c2_def q2_def c3_def)
  have q: "q0 < 64" "q1 < 64" "q2 < 64"
    by (simp_all add: q0_def q1_def q2_def)
  have enc: "utf8_encode_scalar c =
     (if c < 0x80 then [of_nat c]
      else if c < 0x800 then [of_nat (c1 + 192), of_nat (q0 + 128)]
      else if c < 0x10000 then [of_nat (c2 + 224), of_nat (q1 + 128), of_nat (q0 + 128)]
      else [of_nat (c3 + 240), of_nat (q2 + 128), of_nat (q1 + 128), of_nat (q0 + 128)])"
    by (simp add: utf8_encode_scalar_def bitarith div4096 div262144 q0_def c1_def q1_def c2_def q2_def c3_def
             del: of_nat_add)
  consider "c < 0x80" | "0x80 \<le> c" "c < 0x800" | "0x800 \<le> c" "c < 0x10000" | "0x10000 \<le> c"
    by linarith
  then show ?thesis
  proof cases
    case 1
    then have "unat (of_nat c :: byte) = c" by (simp add: unat_byte)
    with 1 show ?thesis using run1[of "of_nat c"] by (simp add: enc)
  next
    case 2
    have b: "2 \<le> c1" "c1 < 32" using 2 c q by linarith+
    have "utf8_run utf8_fresh [of_nat (c1 + 192) :: byte, of_nat (q0 + 128)] = (utf8_fresh, [c1 * 64 + q0])"
      using b q by (intro run2 unat_byte_add) simp_all
    with 2 show ?thesis by (simp add: enc c [symmetric] del: of_nat_add)
  next
    case 3
    have b: "c2 < 16" "c2 = 0 \<longrightarrow> 32 \<le> q1" "c2 = 13 \<longrightarrow> q1 < 32"
      using 3 c c1 q assms unfolding is_scalar_def by linarith+
    have "utf8_run utf8_fresh [of_nat (c2 + 224) :: byte, of_nat (q1 + 128), of_nat (q0 + 128)]
          = (utf8_fresh, [(c2 * 64 + q1) * 64 + q0])"
      using b q by (intro run3 unat_byte_add) simp_all
    with 3 show ?thesis by (simp add: enc c [symmetric] c1 [symmetric] del: of_nat_add)
  next
    case 4
    have b: "c3 < 5" "c3 = 0 \<longrightarrow> 16 \<le> q2" "c3 = 4 \<longrightarrow> q2 < 16"
      using 4 c c1 c2 q assms unfolding is_scalar_def by linarith+
    have "utf8_run utf8_fresh [of_nat (c3 + 240) :: byte, of_nat (q2 + 128), of_nat (q1 + 128), of_nat (q0 + 128)]
          = (utf8_fresh, [((c3 * 64 + q2) * 64 + q1) * 64 + q0])"
      using b q by (intro run4 unat_byte_add) simp_all
    with 4 show ?thesis by (simp add: enc c [symmetric] c1 [symmetric] c2 [symmetric] del: of_nat_add)
  qed
qed


lemma utf8_run_append:
  "utf8_run d (a @ b) =
     (let (d1, out1) = utf8_run d a; (d2, out2) = utf8_run d1 b in (d2, out1 @ out2))"
  by (induction a arbitrary: d) (auto split: prod.splits)

lemma enc_dec_scalars:
  "\<forall>c\<in>set s. is_scalar c \<Longrightarrow> utf8_run utf8_fresh (utf8_encode s) = (utf8_fresh, s)"
proof (induction s)
  case Nil
  then show ?case by (simp add: utf8_encode_def)
next
  case (Cons c s)
  then have "utf8_run utf8_fresh (utf8_encode s) = (utf8_fresh, s)" and "is_scalar c"
    by simp_all
  moreover have "utf8_encode (c # s) = utf8_encode_scalar c @ utf8_encode s"
    using \<open>is_scalar c\<close> by (simp add: utf8_encode_def)
  ultimately show ?case
    by (simp add: utf8_run_append enc_dec_scalar)
qed

lemma strip_bom_append:
  "strip_bom seen (a @ b) =
     (let (s1, t1) = strip_bom seen a; (s2, t2) = strip_bom s1 b in (s2, t1 @ t2))"
  by (cases a; cases b) (auto simp: strip_bom_def)

lemma decode_stream_append:
  "decode_stream td (a @ b) =
     (let (td1, t1) = decode_stream td a; (td2, t2) = decode_stream td1 b in (td2, t1 @ t2))"
  by (simp add: decode_stream_def utf8_run_append strip_bom_append split: prod.splits)

lemma decode_stream_empty: "decode_stream td [] = (td, [])"
  by (simp add: decode_stream_def strip_bom_def)

text \<open>Decoding read by read gives the text of decoding all the bytes at once.\<close>

lemma decode_reads_concat:
  "concat (decode_reads td reads) = snd (decode_stream td (concat reads))"
proof (induction reads arbitrary: td)
  case Nil
  show ?case by (simp add: decode_stream_empty)
next
  case (Cons r reads)
  show ?case
    by (simp add: decode_stream_append Cons.IH split: prod.splits)
qed

lemma decode_encoded:
  assumes "\<forall>c\<in>set s. is_scalar c" "s = [] \<or> hd s \<noteq> 0xFEFF"
  shows "snd (decode_stream new_TextDecoder (utf8_encode s)) = s"
  using assms
  by (cases s) (auto simp: decode_stream_def new_TextDecoder_def enc_dec_scalars strip_bom_def)

lemma encode_replacement: "utf8_encode [0xFFFD] = [0xEF, 0xBF, 0xBD]"
  by (simp add: utf8_encode_def is_scalar_def utf8_encode_scalar_def bitarith)

section \<open>Executions: the situations and the history of the stream\<close>

lemmas stream_defs = canCloseOrEnqueue_def enqueue_def close_def error_stream_def
  consumer_read_def consumer_cancel_def

lemmas handler_defs = logExecution_call_def stdout_chunk_def stderr_chunk_def
  start_catch_def start_resume_def source_cancel_def proc_kill_def

lemma chunks_of_append: "chunks_of k (a @ b) = chunks_of k a @ chunks_of k b"
  by (induction a) auto

lemma run_append: "run te (a @ b) x = run te b (run te a x)"
  by (induction a arbitrary: x) auto

lemma running_start: "running (start_execution scr ps opts)"
  by (simp add: running_def start_execution_def new_ReadableStream_def canCloseOrEnqueue_def)

lemma running_step:
  "running x \<Longrightarrow> \<not> is_terminal e \<Longrightarrow> running (exec_step te e x)"
  by (cases e)
     (auto simp: running_def stream_defs handler_defs chunks_of_append Let_def
           split: prod.splits list.splits)

lemma running_run:
  "running x \<Longrightarrow> \<forall>e\<in>set evs. \<not> is_terminal e \<Longrightarrow> running (run te evs x)"
  by (induction evs arbitrary: x) (auto simp: running_step)

lemma running_cancel: "running x \<Longrightarrow> cancelled (exec_step te ConsumerCancel x)"
  by (auto simp: running_def cancelled_def stream_defs handler_defs)

lemma running_exited: "running x \<Longrightarrow> completed (exec_step te (Exited code) x)"
  by (auto simp: running_def completed_def stream_defs handler_defs chunks_of_append Let_def)

lemma running_exited_fail: "running x \<Longrightarrow> completed (exec_step te (ExitedFail err) x)"
  by (auto simp: running_def completed_def stream_defs handler_defs chunks_of_append Let_def)

lemma cancelled_step: "cancelled x \<Longrightarrow> cancelled (exec_step te e x)"
  by (cases e)
     (auto simp: cancelled_def stream_defs handler_defs chunks_of_append Let_def
           split: prod.splits list.splits)

lemma completed_step:
  "completed x \<Longrightarrow> completed (exec_step te e x) \<or> completed_cancelled (exec_step te e x)"
  by (cases e)
     (auto simp: completed_def completed_cancelled_def stream_defs handler_defs chunks_of_append Let_def
           split: prod.splits list.splits)

lemma completed_step_no_cancel:
  "completed x \<Longrightarrow> e \<noteq> ConsumerCancel \<Longrightarrow> completed (exec_step te e x)"
  by (cases e)
     (auto simp: completed_def stream_defs handler_defs chunks_of_append Let_def
           split: prod.splits list.splits)

lemma completed_cancelled_step:
  "completed_cancelled x \<Longrightarrow> completed_cancelled (exec_step te e x)"
  by (cases e)
     (auto simp: completed_cancelled_def stream_defs handler_defs chunks_of_append Let_def
           split: prod.splits list.splits)


lemma phases_step:
  "running x \<or> completed x \<or> cancelled x \<or> completed_cancelled x \<Longrightarrow>
   running (exec_step te e x) \<or> completed (exec_step te e x) \<or>
   cancelled (exec_step te e x) \<or> completed_cancelled (exec_step te e x)"
proof (elim disjE)
  assume r: "running x"
  show ?thesis
  proof (cases "is_terminal e")
    case False
    with r show ?thesis by (simp add: running_step)
  next
    case True
    with r show ?thesis
      by (cases e)
         (auto simp del: exec_step.simps simp: running_cancel running_exited running_exited_fail)
  qed
next
  assume "completed x"
  then show ?thesis using completed_step [of x te e] by blast
next
  assume "cancelled x"
  then show ?thesis by (simp add: cancelled_step)
next
  assume "completed_cancelled x"
  then show ?thesis by (simp add: completed_cancelled_step)
qed

lemma phases_run:
  "running x \<or> completed x \<or> cancelled x \<or> completed_cancelled x \<Longrightarrow>
   running (run te evs x) \<or> completed (run te evs x) \<or>
   cancelled (run te evs x) \<or> completed_cancelled (run te evs x)"
proof (induction evs arbitrary: x)
  case Nil
  then show ?case by simp
next
  case (Cons e evs)
  show ?case
    unfolding run.simps by (rule Cons.IH) (rule phases_step [OF Cons.prems])
qed

lemma cancelled_run: "cancelled x \<Longrightarrow> cancelled (run te evs x)"
  by (induction evs arbitrary: x) (auto simp: cancelled_step)

lemma completed_run_no_cancel:
  "completed x \<Longrightarrow> ConsumerCancel \<notin> set evs \<Longrightarrow> completed (run te evs x)"
  by (induction evs arbitrary: x) (auto simp: completed_step_no_cancel)

text \<open>Once the close is requested or the stream has left the readable state, nothing is enqueued.\<close>

lemma frozen_step:
  assumes "closeRequested (stream x) \<or> state (stream x) \<noteq> Readable"
  shows "enqueued (stream (exec_step te e x)) = enqueued (stream x) \<and>
         (closeRequested (stream (exec_step te e x)) \<or> state (stream (exec_step te e x)) \<noteq> Readable) \<and>
         closeRequested (stream (exec_step te e x)) = closeRequested (stream x)"
  using assms
  by (cases e)
     (auto simp: stream_defs handler_defs Let_def split: prod.splits list.splits)

lemma frozen_run:
  assumes "closeRequested (stream x) \<or> state (stream x) \<noteq> Readable"
  shows "enqueued (stream (run te evs x)) = enqueued (stream x) \<and>
         closeRequested (stream (run te evs x)) = closeRequested (stream x)"
  using assms
proof (induction evs arbitrary: x)
  case Nil
  then show ?case by simp
next
  case (Cons e evs)
  let ?y = "exec_step te e x"
  from frozen_step [OF Cons.prems, of te e]
  have eq: "enqueued (stream ?y) = enqueued (stream x)"
    and fr: "closeRequested (stream ?y) \<or> state (stream ?y) \<noteq> Readable"
    and cr: "closeRequested (stream ?y) = closeRequested (stream x)"
    by blast+
  from Cons.IH [OF fr] eq cr show ?case
    by (simp del: exec_step.simps)
qed

lemma first_terminal:
  "(\<forall>e\<in>set evs. \<not> is_terminal e) \<or>
   (\<exists>pre e post. evs = pre @ e # post \<and> (\<forall>e\<in>set pre. \<not> is_terminal e) \<and> is_terminal e)"
  using split_list_first_prop [of evs is_terminal] by blast

lemma exited_enqueues:
  "running x \<Longrightarrow>
   enqueued (stream (exec_step te (Exited code) x)) = enqueued (stream x) @ [(Synthetic, exitMessage code)] \<and>
   closeRequested (stream (exec_step te (Exited code) x))"
  by (auto simp: running_def stream_defs handler_defs Let_def)

lemma exited_fail_enqueues:
  "running x \<Longrightarrow>
   enqueued (stream (exec_step te (ExitedFail err) x)) = enqueued (stream x) @ [(Synthetic, errorMessage err)] \<and>
   closeRequested (stream (exec_step te (ExitedFail err) x))"
  by (auto simp: running_def stream_defs handler_defs Let_def)

lemma cancel_closes:
  "running x \<Longrightarrow>
   enqueued (stream (exec_step te ConsumerCancel x)) = enqueued (stream x) \<and>
   \<not> closeRequested (stream (exec_step te ConsumerCancel x)) \<and>
   state (stream (exec_step te ConsumerCancel x)) = Closed"
  by (auto simp: running_def stream_defs handler_defs Let_def)

text \<open>The shape of the history of the stream after any sequence of events.\<close>

lemma enqueued_shape:
  fixes evs scr ps opts te
  defines "x \<equiv> run te evs (start_execution scr ps opts)"
  shows "(\<not> closeRequested (stream x) \<and> chunks_of Synthetic (enqueued (stream x)) = []) \<or>
         (closeRequested (stream x) \<and>
          (\<exists>pre m. enqueued (stream x) = pre @ [(Synthetic, m)] \<and> chunks_of Synthetic pre = [] \<and>
             ((\<exists>code. Exited code \<in> set evs \<and> m = exitMessage code) \<or>
              (\<exists>err. ExitedFail err \<in> set evs \<and> m = errorMessage err))))"
proof -
  let ?init = "start_execution scr ps opts"
  from first_terminal [of evs] show ?thesis
  proof (elim disjE exE conjE)
    assume "\<forall>e\<in>set evs. \<not> is_terminal e"
    then have "running x"
      unfolding x_def by (intro running_run running_start)
    then show ?thesis by (simp add: running_def canCloseOrEnqueue_def)
  next
    fix pre e post
    assume evs: "evs = pre @ e # post" and pre: "\<forall>e\<in>set pre. \<not> is_terminal e" and e: "is_terminal e"
    define y where "y = run te pre ?init"
    have y: "running y"
      unfolding y_def using pre by (intro running_run running_start)
    have x: "x = run te post (exec_step te e y)"
      by (simp add: x_def evs run_append y_def)
    from y have ny: "chunks_of Synthetic (enqueued (stream y)) = []"
      by (simp add: running_def)
    from e show ?thesis
    proof (cases e)
      case (Exited code)
      from exited_enqueues [OF y, of te code]
      have "enqueued (stream x) = enqueued (stream y) @ [(Synthetic, exitMessage code)]"
        and "closeRequested (stream x)"
        unfolding x Exited using frozen_run [of "exec_step te (Exited code) y" te post] by simp_all
      with ny show ?thesis by (auto simp: evs Exited)
    next
      case (ExitedFail err)
      from exited_fail_enqueues [OF y, of te err]
      have "enqueued (stream x) = enqueued (stream y) @ [(Synthetic, errorMessage err)]"
        and "closeRequested (stream x)"
        unfolding x ExitedFail using frozen_run [of "exec_step te (ExitedFail err) y" te post] by simp_all
      with ny show ?thesis by (auto simp: evs ExitedFail)
    next
      case ConsumerCancel
      from cancel_closes [OF y, of te]
      have "enqueued (stream x) = enqueued (stream y)" and "\<not> closeRequested (stream x)"
        unfolding x ConsumerCancel using frozen_run [of "exec_step te ConsumerCancel y" te post] by simp_all
      with ny show ?thesis by simp
    qed simp_all
  qed
qed


lemma stdout_step:
  assumes "running x" "\<not> is_terminal e"
  shows "chunks_of Stdout (enqueued (stream (exec_step te e x))) @
           (if stdout_reading (exec_step te e x)
            then decode_reads (stdout_decoder (exec_step te e x)) (stdout_reads evs) else [])
         = chunks_of Stdout (enqueued (stream x)) @
           (if stdout_reading x then decode_reads (stdout_decoder x) (stdout_reads (e # evs)) else [])"
  using assms
  by (cases e)
     (auto simp: running_def stream_defs handler_defs chunks_of_append Let_def
           split: prod.splits list.splits)

lemma stderr_step:
  assumes "running x" "\<not> is_terminal e"
  shows "chunks_of Stderr (enqueued (stream (exec_step te e x))) @
           (if stderr_reading (exec_step te e x)
            then map ((@) (lit ''[stderr] ''))
                   (decode_reads (stderr_decoder (exec_step te e x)) (stderr_reads evs)) else [])
         = chunks_of Stderr (enqueued (stream x)) @
           (if stderr_reading x
            then map ((@) (lit ''[stderr] '')) (decode_reads (stderr_decoder x) (stderr_reads (e # evs)))
            else [])"
  using assms
  by (cases e)
     (auto simp: running_def stream_defs handler_defs chunks_of_append Let_def
           split: prod.splits list.splits)

lemma stdout_run:
  "running x \<Longrightarrow> \<forall>e\<in>set evs. \<not> is_terminal e \<Longrightarrow>
   chunks_of Stdout (enqueued (stream (run te evs x))) =
     chunks_of Stdout (enqueued (stream x)) @
       (if stdout_reading x then decode_reads (stdout_decoder x) (stdout_reads evs) else [])"
proof (induction evs arbitrary: x)
  case Nil
  then show ?case by simp
next
  case (Cons e evs)
  then have e: "\<not> is_terminal e" and r: "running (exec_step te e x)"
    by (simp_all add: running_step)
  from Cons.IH [OF r] Cons.prems(2)
  have "chunks_of Stdout (enqueued (stream (run te (e # evs) x))) =
        chunks_of Stdout (enqueued (stream (exec_step te e x))) @
           (if stdout_reading (exec_step te e x)
            then decode_reads (stdout_decoder (exec_step te e x)) (stdout_reads evs) else [])"
    by simp
  also note stdout_step [OF Cons.prems(1) e]
  finally show ?case .
qed

lemma stderr_run:
  "running x \<Longrightarrow> \<forall>e\<in>set evs. \<not> is_terminal e \<Longrightarrow>
   chunks_of Stderr (enqueued (stream (run te evs x))) =
     chunks_of Stderr (enqueued (stream x)) @
       (if stderr_reading x
        then map ((@) (lit ''[stderr] '')) (decode_reads (stderr_decoder x) (stderr_reads evs))
        else [])"
proof (induction evs arbitrary: x)
  case Nil
  then show ?case by simp
next
  case (Cons e evs)
  then have e: "\<not> is_terminal e" and r: "running (exec_step te e x)"
    by (simp_all add: running_step)
  from Cons.IH [OF r] Cons.prems(2)
  have "chunks_of Stderr (enqueued (stream (run te (e # evs) x))) =
        chunks_of Stderr (enqueued (stream (exec_step te e x))) @
           (if stderr_reading (exec_step te e x)
            then map ((@) (lit ''[stderr] ''))
                   (decode_reads (stderr_decoder (exec_step te e x)) (stderr_reads evs)) else [])"
    by simp
  also note stderr_step [OF Cons.prems(1) e]
  finally show ?case .
qed

lemma emitted_chunks:
  assumes "\<forall>e\<in>set evs. \<not> is_terminal e"
  shows "chunks_of Stdout (enqueued (stream (run te evs (start_execution scr ps opts))))
           = decode_reads new_TextDecoder (stdout_reads evs)"
    and "chunks_of Stderr (enqueued (stream (run te evs (start_execution scr ps opts))))
           = map ((@) (lit ''[stderr] '')) (decode_reads new_TextDecoder (stderr_reads evs))"
  using stdout_run [OF running_start assms, of te scr ps opts]
        stderr_run [OF running_start assms, of te scr ps opts]
  by (simp_all add: start_execution_def new_ReadableStream_def)

lemma chunks_of_empty_iff: "chunks_of k cs = [] \<longleftrightarrow> k \<notin> fst ` set cs"
  by (induction cs) (auto split: if_splits)

lemmas eval_defs = sample_execution_def start_execution_def new_ReadableStream_def
  new_TextDecoder_def utf8_fresh_def decode_stream_def utf8_handler_def utf8_lead_def
  strip_bom_def stream_defs handler_defs Let_def

lemma settled_step:
  "completed x \<or> cancelled x \<or> completed_cancelled x \<Longrightarrow>
   completed (exec_step te e x) \<or> cancelled (exec_step te e x) \<or> completed_cancelled (exec_step te e x)"
  using completed_step [of x te e] cancelled_step [of x te e] completed_cancelled_step [of x te e]
  by blast

lemma settled_run:
  "completed x \<or> cancelled x \<or> completed_cancelled x \<Longrightarrow>
   completed (run te evs x) \<or> cancelled (run te evs x) \<or> completed_cancelled (run te evs x)"
proof (induction evs arbitrary: x)
  case Nil
  then show ?case by simp
next
  case (Cons e evs)
  show ?case
    unfolding run.simps by (rule Cons.IH) (rule settled_step [OF Cons.prems])
qed

section \<open>Executions: the claims\<close>

text \<open>The sample execution is the one \<open>executeScript\<close> starts for the sample request.\<close>

lemma sample_execution_started:
  "executeScript app_map sample_params None (lit ''/srv'') idle_world
     = (Inr sample_execution,
        idle_world\<lparr>children :=
          [\<lparr>cmd = [lit ''bun'', lit ''run'', lit ''/srv/scripts/App-map.ts'', lit ''src/main.ts''],
            cwd = lit ''/srv''\<rparr>]\<rparr>)"
  by (simp add: executeScript_def bind_args_def select_command_def endsWith_def working_dir_def
        app_map_def sample_params_def sample_execution_def idle_world_def lit_simps Let_def)

text \<open>
  C1.  After any sequence of events of a started execution, the history of the stream
  has one of two shapes.  As long as no close is requested, it holds chunks of stdout
  and stderr only.  Once the close is requested (the completion signal), it is such
  chunks followed by exactly one chunk of \<open>start\<close>, which is the last: the chunk
  \<open>[Process exited with code N]\<close> of an exit that was observed (the \<open>[Error: ...]\<close>
  chunk of the \<open>catch\<close> block, had \<open>proc.exited\<close> rejected instead).  Since this holds
  after every sequence of events, no chunk of stdout or stderr is ever enqueued after the
  exit chunk.
\<close>

theorem exit_chunk_is_last:
  "(\<not> closeRequested (stream (run te evs (start_execution scr ps opts))) \<and>
      Synthetic \<notin> fst ` set (enqueued (stream (run te evs (start_execution scr ps opts))))) \<or>
   (closeRequested (stream (run te evs (start_execution scr ps opts))) \<and>
      (\<exists>pre m. enqueued (stream (run te evs (start_execution scr ps opts))) = pre @ [(Synthetic, m)] \<and>
         Synthetic \<notin> fst ` set pre \<and>
         ((\<exists>code. Exited code \<in> set evs \<and> m = exitMessage code) \<or>
          (\<exists>err. ExitedFail err \<in> set evs \<and> m = errorMessage err))))"
  using enqueued_shape [of te evs scr ps opts]
  by (simp only: chunks_of_empty_iff)

theorem exit_chunk_is_last_witness:
  "closeRequested (stream (run [] [StdoutRead [104, 105], Exited (Some 0), StdoutRead [33]] sample_execution)) \<and>
   enqueued (stream (run [] [StdoutRead [104, 105], Exited (Some 0), StdoutRead [33]] sample_execution))
     = [(Stdout, lit ''hi''), (Synthetic, exitMessage (Some 0))]"
  using exit_chunk_is_last
    [of "[]" "[StdoutRead [104, 105], Exited (Some 0), StdoutRead [33]]" app_map sample_params
        "\<lparr>cmd = [lit ''bun'', lit ''run'', lit ''/srv/scripts/App-map.ts'', lit ''src/main.ts''],
          cwd = lit ''/srv''\<rparr>"]
  by (simp add: eval_defs lit_simps)

text \<open>
  C2, as stated, fails: the decoder replaces bytes that are not UTF-8.  The child writes
  the single byte \<open>0xFF\<close> to stdout; the chunk emitted is U+FFFD, which re-encodes to
  \<open>EF BF BD\<close>.
\<close>

theorem invalid_bytes_are_replaced:
  "utf8_encode (concat (chunks_of Stdout
      (enqueued (stream (run [] [StdoutRead [0xFF]] sample_execution))))) = [0xEF, 0xBF, 0xBD] \<and>
   concat (stdout_reads [StdoutRead [0xFF]]) = [0xFF] \<and>
   utf8_encode (concat (chunks_of Stdout
      (enqueued (stream (run [] [StdoutRead [0xFF]] sample_execution)))))
     \<noteq> concat (stdout_reads [StdoutRead [0xFF]])"
  by (simp add: eval_defs encode_replacement)

text \<open>
  C2, as the code has it.  As long as the exit of the child has not been observed and
  the consumer has not cancelled, the stdout chunks enqueued are the texts decoded from
  the reads of stdout, one per read and in order, and the stderr chunks are the texts
  decoded from the reads of stderr, each behind the tag \<open>[stderr] \<close>.  When the bytes
  read from a pipe are the UTF-8 encoding of a text that does not begin with U+FEFF,
  the decoded texts concatenate to that text, wherever the reads cut the bytes, so
  that they re-encode to exactly the bytes read.
\<close>

theorem emitted_chunks_round_trip:
  assumes "\<forall>e\<in>set evs. \<not> is_terminal e"
  shows "chunks_of Stdout (enqueued (stream (run te evs (start_execution scr ps opts))))
           = decode_reads new_TextDecoder (stdout_reads evs) \<and>
         chunks_of Stderr (enqueued (stream (run te evs (start_execution scr ps opts))))
           = map ((@) (lit ''[stderr] '')) (decode_reads new_TextDecoder (stderr_reads evs)) \<and>
         (\<forall>s. (\<forall>c\<in>set s. is_scalar c) \<and> (s = [] \<or> hd s \<noteq> 0xFEFF) \<and>
               concat (stdout_reads evs) = utf8_encode s \<longrightarrow>
               concat (decode_reads new_TextDecoder (stdout_reads evs)) = s \<and>
               utf8_encode (concat (chunks_of Stdout
                  (enqueued (stream (run te evs (start_execution scr ps opts))))))
                 = concat (stdout_reads evs)) \<and>
         (\<forall>s. (\<forall>c\<in>set s. is_scalar c) \<and> (s = [] \<or> hd s \<noteq> 0xFEFF) \<and>
               concat (stderr_reads evs) = utf8_encode s \<longrightarrow>
               concat (decode_reads new_TextDecoder (stderr_reads evs)) = s \<and>
               utf8_encode (concat (decode_reads new_TextDecoder (stderr_reads evs)))
                 = concat (stderr_reads evs))"
proof -
  note ch = emitted_chunks [OF assms, of te scr ps opts]
  have rt: "concat (decode_reads new_TextDecoder reads) = s \<and>
            utf8_encode (concat (decode_reads new_TextDecoder reads)) = concat reads"
    if "(\<forall>c\<in>set s. is_scalar c) \<and> (s = [] \<or> hd s \<noteq> 0xFEFF) \<and> concat reads = utf8_encode s"
    for reads s
  proof -
    from that have "concat (decode_reads new_TextDecoder reads) = s"
      by (simp add: decode_reads_concat decode_encoded)
    with that show ?thesis by simp
  qed
  show ?thesis
    unfolding ch using rt by blast
qed

theorem emitted_chunks_round_trip_witness:
  "chunks_of Stdout (enqueued (stream
      (run [] [StdoutRead [0xE2, 0x82], StderrRead [0x21], StdoutRead [0xAC]] sample_execution)))
     = [[], [0x20AC]] \<and>
   chunks_of Stderr (enqueued (stream
      (run [] [StdoutRead [0xE2, 0x82], StderrRead [0x21], StdoutRead [0xAC]] sample_execution)))
     = [lit ''[stderr] !''] \<and>
   utf8_encode (concat (chunks_of Stdout (enqueued (stream
      (run [] [StdoutRead [0xE2, 0x82], StderrRead [0x21], StdoutRead [0xAC]] sample_execution)))))
     = [0xE2, 0x82, 0xAC]"
proof -
  have enc: "utf8_encode [0x20AC] = [0xE2, 0x82, 0xAC]"
    by (simp add: utf8_encode_def is_scalar_def utf8_encode_scalar_def bitarith)
  have dec: "decode_reads new_TextDecoder [[0xE2, 0x82], [0xAC]] = [[], [0x20AC]]"
    "decode_reads new_TextDecoder [[0x21]] = [lit ''!'']"
    by (simp_all add: new_TextDecoder_def utf8_fresh_def decode_stream_def utf8_handler_def
          utf8_lead_def strip_bom_def Let_def lit_simps bitarith)
  have nt: "\<forall>e\<in>set [StdoutRead [0xE2, 0x82], StderrRead [0x21], StdoutRead [0xAC]]. \<not> is_terminal e"
    by simp
  from emitted_chunks_round_trip [OF nt, of "[]" app_map sample_params
        "\<lparr>cmd = [lit ''bun'', lit ''run'', lit ''/srv/scripts/App-map.ts'', lit ''src/main.ts''],
          cwd = lit ''/srv''\<rparr>"]
  have "chunks_of Stdout (enqueued (stream
          (run [] [StdoutRead [0xE2, 0x82], StderrRead [0x21], StdoutRead [0xAC]] sample_execution)))
        = decode_reads new_TextDecoder [[0xE2, 0x82], [0xAC]]"
    and "chunks_of Stderr (enqueued (stream
          (run [] [StdoutRead [0xE2, 0x82], StderrRead [0x21], StdoutRead [0xAC]] sample_execution)))
        = map ((@) (lit ''[stderr] '')) (decode_reads new_TextDecoder [[0x21]])"
    unfolding sample_execution_def by (simp_all del: run.simps decode_reads.simps)
  then show ?thesis
    by (simp add: dec enc lit_simps del: run.simps decode_reads.simps)
qed

text \<open>
  C6, as stated, fails.  The exit of the child is observed while the consumer is not
  reading: \<open>start\<close> enqueues the exit chunk, requests the close and logs; the stream
  stays readable until the queue is read.  The consumer then cancels: the \<open>cancel\<close>
  of the source runs and logs again.
\<close>

theorem completion_then_cancel_logs_twice:
  "map lc_exitCode (log_calls (run [] [Exited (Some 0), ConsumerCancel] sample_execution))
     = [Some 0, None]"
  by (simp add: eval_defs)

text \<open>
  C6, as the code has it.  For every sequence of events of a started execution:
  \<open>logExecution\<close> has been called if and only if an event that settles the outcome
  (the exit is observed, or the consumer cancels) has happened; it is called at most
  twice; when the consumer cancels before any exit is observed it is called exactly
  once, without exit code, and the completion path adds no record; when the consumer
  never cancels and the exit is observed it is called exactly once.
\<close>

theorem log_calls_per_outcome:
  "((log_calls (run te evs (start_execution scr ps opts)) = []) = (\<forall>e\<in>set evs. \<not> is_terminal e)) \<and>
   length (log_calls (run te evs (start_execution scr ps opts))) \<le> 2 \<and>
   ((\<exists>pre post. evs = pre @ ConsumerCancel # post \<and> (\<forall>e\<in>set pre. \<not> is_terminal e)) \<longrightarrow>
      length (log_calls (run te evs (start_execution scr ps opts))) = 1 \<and>
      lc_exitCode (last (log_calls (run te evs (start_execution scr ps opts)))) = None) \<and>
   (ConsumerCancel \<notin> set evs \<and> (\<exists>e\<in>set evs. is_terminal e) \<longrightarrow>
      length (log_calls (run te evs (start_execution scr ps opts))) = 1)"
proof -
  let ?init = "start_execution scr ps opts"
  let ?x = "run te evs ?init"
  have ph: "running ?x \<or> completed ?x \<or> cancelled ?x \<or> completed_cancelled ?x"
    by (intro phases_run disjI1 running_start)
  then have le: "length (log_calls ?x) \<le> 2"
    by (auto simp: running_def completed_def cancelled_def completed_cancelled_def)
  have none: "log_calls ?x = []" if "\<forall>e\<in>set evs. \<not> is_terminal e"
    using running_run [OF running_start that, of te scr ps opts] by (simp add: running_def)
  have split: "\<exists>pre e post. evs = pre @ e # post \<and> running (run te pre ?init) \<and> is_terminal e"
    if "\<not> (\<forall>e\<in>set evs. \<not> is_terminal e)"
  proof -
    from that first_terminal [of evs] obtain pre e post
      where evs: "evs = pre @ e # post" and pre: "\<forall>e\<in>set pre. \<not> is_terminal e" and e: "is_terminal e"
      by blast
    have "running (run te pre ?init)"
      by (rule running_run [OF running_start pre])
    with evs e show ?thesis by blast
  qed
  have some: "log_calls ?x \<noteq> []" if "\<not> (\<forall>e\<in>set evs. \<not> is_terminal e)"
  proof -
    from split [OF that] obtain pre e post
      where evs: "evs = pre @ e # post" and y: "running (run te pre ?init)" and e: "is_terminal e"
      by blast
    have "completed (exec_step te e (run te pre ?init)) \<or> cancelled (exec_step te e (run te pre ?init))
          \<or> completed_cancelled (exec_step te e (run te pre ?init))"
      using e y by (cases e)
        (auto simp del: exec_step.simps simp: running_cancel running_exited running_exited_fail)
    from settled_run [OF this, of te post]
    have "completed ?x \<or> cancelled ?x \<or> completed_cancelled ?x"
      by (simp add: evs run_append)
    then show ?thesis
      by (auto simp: completed_def cancelled_def completed_cancelled_def)
  qed
  have cancel_first: "length (log_calls ?x) = 1 \<and> lc_exitCode (last (log_calls ?x)) = None"
    if "\<exists>pre post. evs = pre @ ConsumerCancel # post \<and> (\<forall>e\<in>set pre. \<not> is_terminal e)"
  proof -
    from that obtain pre post
      where evs: "evs = pre @ ConsumerCancel # post" and pre: "\<forall>e\<in>set pre. \<not> is_terminal e"
      by blast
    have "running (run te pre ?init)"
      by (rule running_run [OF running_start pre])
    then have "cancelled (exec_step te ConsumerCancel (run te pre ?init))"
      by (rule running_cancel)
    from cancelled_run [OF this, of te post] have "cancelled ?x"
      by (simp add: evs run_append)
    then show ?thesis by (simp add: cancelled_def)
  qed
  have no_cancel: "length (log_calls ?x) = 1"
    if "ConsumerCancel \<notin> set evs \<and> (\<exists>e\<in>set evs. is_terminal e)"
  proof -
    from that have "\<not> (\<forall>e\<in>set evs. \<not> is_terminal e)" by blast
    from split [OF this] obtain pre e post
      where evs: "evs = pre @ e # post" and y: "running (run te pre ?init)" and e: "is_terminal e"
      by blast
    from that evs have ne: "e \<noteq> ConsumerCancel" and post: "ConsumerCancel \<notin> set post"
      by auto
    have "completed (exec_step te e (run te pre ?init))"
      using e ne y by (cases e)
        (auto simp del: exec_step.simps simp: running_exited running_exited_fail)
    from completed_run_no_cancel [OF this post, of te] have "completed ?x"
      by (simp add: evs run_append)
    then show ?thesis by (simp add: completed_def)
  qed
  show ?thesis
    using le none some cancel_first no_cancel by blast
qed

theorem log_calls_per_outcome_witness:
  "length (log_calls (run [] [StdoutRead [104, 105], ConsumerCancel, Exited None] sample_execution)) = 1 \<and>
   lc_exitCode (last (log_calls
      (run [] [StdoutRead [104, 105], ConsumerCancel, Exited None] sample_execution))) = None"
proof -
  have "\<exists>pre post. [StdoutRead [104, 105], ConsumerCancel, Exited None] = pre @ ConsumerCancel # post \<and>
          (\<forall>e\<in>set pre. \<not> is_terminal e)"
    by (intro exI [of _ "[StdoutRead [104, 105]]"] exI [of _ "[Exited None]"]) simp
  with log_calls_per_outcome
    [of "[]" "[StdoutRead [104, 105], ConsumerCancel, Exited None]" app_map sample_params
        "\<lparr>cmd = [lit ''bun'', lit ''run'', lit ''/srv/scripts/App-map.ts'', lit ''src/main.ts''],
          cwd = lit ''/srv''\<rparr>"]
  show ?thesis
    unfolding sample_execution_def by blast
qed





end
